theory Spec2Isabelle
  imports Complex_Main "HOL-Library.AList"
begin

section \<open>The Pioneer DDJ-400 four-deck mapping script\<close>

text \<open>
  A shallow embedding of \<^verbatim>\<open>Pioneer-DDJ-400-quirx-4D-script.js\<close>. The script keeps its data
  in \<^verbatim>\<open>PioneerDDJ400.state\<close> and talks to the Mixxx engine (\<^verbatim>\<open>engine.*\<close>) and to the
  controller (\<^verbatim>\<open>midi.sendShortMsg\<close>). Both are part of the record \<open>state\<close> below: the
  script's fields keep their names, the host's side is the control values, the active timers
  and connections, the controller's lights and the log of calls the script made.

  Conventions of the embedding:
  \<^item> hardware channels and decks are numbers as in the script; the script's arrays
    \<^verbatim>\<open>connections\<close>, \<^verbatim>\<open>timers\<close>, \<^verbatim>\<open>channel\<close> (length 2) and \<^verbatim>\<open>deck\<close> (length 4) are
    functions of the index; JavaScript raises a TypeError on an index outside them, so
    every statement below is about channels \<open>< 2\<close> and decks \<open>< 4\<close>;
  \<^item> a field that may be \<^verbatim>\<open>undefined\<close> is an \<open>option\<close>;
  \<^item> engine values are JavaScript numbers, modelled as reals; truthiness is \<open>\<noteq> 0\<close>;
  \<^item> group names, which the script builds by concatenating numbers into strings, are the
    datatype \<open>group\<close>: \<open>Channel n\<close> is \<^verbatim>\<open>'[Channel' + n + ']'\<close>;
  \<^item> \<^verbatim>\<open>Date.now()\<close> is a parameter of the handler that reads it;
  \<^item> \<^verbatim>\<open>engine.setValue\<close>, \<^verbatim>\<open>engine.setParameter\<close> and \<^verbatim>\<open>script.toggleControl\<close> are
    commands to the host whose outcome comes back as a later host event; they do not
    change the state below.
\<close>

subsection \<open>Data\<close>

type_synonym val = real

definition truthy :: "val \<Rightarrow> bool" where
  "truthy v = (v \<noteq> 0)"

datatype group =
    Channel nat
  | Master
  | Sampler nat
  | EffectRack1
  | EffectUnit "nat option"
  | EffectSlot "nat option" val
  | EqualizerRack1 group
  | QuickEffectRack1 group
  | Number nat

datatype loop_modifier = none | adjust_in | adjust_out

record midi_out =
  status :: nat
  data1 :: nat

record channel_state =
  shift_button_pressed :: "bool option"
  shift_double :: "bool option"
  shift_time :: "int option"
  beatjump_scalestep :: "int option"
  current_loop_modifier :: "loop_modifier option"

record deck_state =
  loop_adjust :: "loop_modifier option"
  effect_unit :: "nat option"

text \<open>The three closures that \<^verbatim>\<open>update_loop_inout_lights\<close> hands to \<^verbatim>\<open>engine.beginTimer\<close>.\<close>

datatype blink = Blink_both | Blink_in | Blink_out

record timer =
  tm_id :: nat
  tm_period :: nat
  tm_channel :: nat
  tm_blink :: blink
  tm_blink_state :: bool

text \<open>
  The functions that the script registers as observers. \<open>Update_beatloop 0\<close> is
  \<^verbatim>\<open>update_beatloop_025\<close>, \<open>Update_beatloop 1\<close> is \<^verbatim>\<open>update_beatloop_05\<close>, and so on;
  \<open>Update_hotcue n\<close> is \<^verbatim>\<open>update_hotcue_(n+1)\<close>.
\<close>

datatype callback =
    Play_indicator | Cue_indicator | Vu_meter_update | Track_loaded_animation
  | Beatsync_update | Beatmaster_update | Headphone_cue_update | Quantize_update
  | Keylock_update | Set_loop_enabled | Update_beatloop nat | Update_hotcue nat
  | Update_sampler | Update_fx_light | Update_head_split_light

record connection =
  cn_id :: nat
  cn_group :: group
  cn_control :: string
  cn_fun :: callback

text \<open>Keys of \<^verbatim>\<open>state.connections[channel]\<close>: a control name, or \<^verbatim>\<open>'[SamplerN]_light'\<close>.\<close>

datatype conn_key = Control string | Sampler_light nat

datatype persistent_key =
    Head_split
  | Effect_unit_focussed nat
  | Effect_unit_slot_enabled nat nat

datatype message =
    Warning_deck_not_active nat
  | Connecting nat nat group
  | Would_toggle_identical
  | Toggling_deck nat nat
  | Setting_up_soft_takeover group

text \<open>
  The log, in the order of the events: the script's calls to the host, the host's calls of
  an observer (\<open>Called\<close>: the observer, the value and the group it is given), and (as
  \<open>Bind\<close>) the one write to \<^verbatim>\<open>state.channel_mapping\<close>. \<open>BeginTimer\<close> records the id the
  host returns, the period, and the closure: the channel it captured and what it blinks.
\<close>

datatype log_entry =
    SendShortMsg nat nat val
  | BeginTimer nat nat nat blink
  | StopTimer nat
  | MakeConnection nat group string callback
  | Disconnect nat
  | Trigger nat
  | Called callback val group
  | SoftTakeover group string
  | SoftTakeoverIgnoreNextValue group string
  | Print message
  | Bind nat nat

record state =
  channel_mapping :: "nat list"
  connections :: "nat \<Rightarrow> (conn_key \<times> nat) list"
  timers :: "nat \<Rightarrow> (string \<times> nat) list"
  channel :: "nat \<Rightarrow> channel_state"
  deck :: "nat \<Rightarrow> deck_state"
  persistent_connections :: "(persistent_key \<times> nat) list"
  last_shift_button_pressed :: nat
  num_decks :: nat
  num_effectunits :: nat
  num_effectslots :: "nat \<Rightarrow> nat"
  ctl :: "group \<Rightarrow> string \<Rightarrow> val"
  host_timers :: "timer list"
  host_conns :: "connection list"
  next_id :: nat
  leds :: "nat \<times> nat \<Rightarrow> val option"
  calls :: "log_entry list"

text \<open>Statements in sequence.\<close>

definition seq :: "('s \<Rightarrow> 's) list \<Rightarrow> 's \<Rightarrow> 's" where
  "seq fs s = fold (\<lambda>f. f) fs s"

subsection \<open>Constants\<close>

definition default_effect_unit :: "nat list" where
  "default_effect_unit = [1, 1, 2, 2]"

definition primary_deck :: "nat list" where
  "primary_deck = [0, 1]"

text \<open>\<^verbatim>\<open>sampler_groups\<close>: the numbers \<open>n\<close> of \<^verbatim>\<open>'[SamplerN]'\<close>, per deck.\<close>

definition sampler_groups :: "nat list list" where
  "sampler_groups =
     [[1, 2, 3, 4, 5, 6, 7, 8], [9, 10, 11, 12, 13, 14, 15, 16],
      [1, 2, 3, 4, 5, 6, 7, 8], [9, 10, 11, 12, 13, 14, 15, 16]]"

definition times_loop_active :: nat where "times_loop_active = 500"
definition times_loop_adjust :: nat where "times_loop_adjust = 250"
definition times_double_press :: int where "times_double_press = 290"

named_theorems lights_defs

definition lights_vu_meter :: midi_out where
  [lights_defs]: "lights_vu_meter = \<lparr>status = 0xB0, data1 = 0x02\<rparr>"
definition lights_beat_fx :: midi_out where
  [lights_defs]: "lights_beat_fx = \<lparr>status = 0x94, data1 = 0x47\<rparr>"
definition lights_play_pause :: midi_out where
  [lights_defs]: "lights_play_pause = \<lparr>status = 0x90, data1 = 0x0B\<rparr>"
definition lights_shift_play_pause :: midi_out where
  [lights_defs]: "lights_shift_play_pause = \<lparr>status = 0x90, data1 = 0x47\<rparr>"
definition lights_cue :: midi_out where
  [lights_defs]: "lights_cue = \<lparr>status = 0x90, data1 = 0x0C\<rparr>"
definition lights_shift_cue :: midi_out where
  [lights_defs]: "lights_shift_cue = \<lparr>status = 0x90, data1 = 0x48\<rparr>"
definition lights_load_animation :: midi_out where
  [lights_defs]: "lights_load_animation = \<lparr>status = 0x9F, data1 = 0x00\<rparr>"
definition lights_reloop :: midi_out where
  [lights_defs]: "lights_reloop = \<lparr>status = 0x90, data1 = 0x4D\<rparr>"
definition lights_shift_reloop :: midi_out where
  [lights_defs]: "lights_shift_reloop = \<lparr>status = 0x90, data1 = 0x50\<rparr>"
definition lights_loop_in :: midi_out where
  [lights_defs]: "lights_loop_in = \<lparr>status = 0x90, data1 = 0x10\<rparr>"
definition lights_shift_loop_in :: midi_out where
  [lights_defs]: "lights_shift_loop_in = \<lparr>status = 0x90, data1 = 0x4C\<rparr>"
definition lights_loop_out :: midi_out where
  [lights_defs]: "lights_loop_out = \<lparr>status = 0x90, data1 = 0x11\<rparr>"
definition lights_shift_loop_out :: midi_out where
  [lights_defs]: "lights_shift_loop_out = \<lparr>status = 0x90, data1 = 0x4E\<rparr>"
definition lights_beatsync :: midi_out where
  [lights_defs]: "lights_beatsync = \<lparr>status = 0x90, data1 = 0x58\<rparr>"
definition lights_shift_beatsync :: midi_out where
  [lights_defs]: "lights_shift_beatsync = \<lparr>status = 0x90, data1 = 0x60\<rparr>"
definition lights_headphone_cue :: midi_out where
  [lights_defs]: "lights_headphone_cue = \<lparr>status = 0x90, data1 = 0x54\<rparr>"
definition lights_shift_headphone_cue :: midi_out where
  [lights_defs]: "lights_shift_headphone_cue = \<lparr>status = 0x90, data1 = 0x68\<rparr>"

definition pad_modes_hot_cue :: nat where [lights_defs]: "pad_modes_hot_cue = 0x00"
definition pad_modes_beat_loop :: nat where [lights_defs]: "pad_modes_beat_loop = 0x60"
definition pad_modes_beat_jump :: nat where [lights_defs]: "pad_modes_beat_jump = 0x20"
definition pad_modes_sampler :: nat where [lights_defs]: "pad_modes_sampler = 0x30"
definition pad_modes_fx_1 :: nat where [lights_defs]: "pad_modes_fx_1 = 0x10"

definition timer_id :: string where
  "timer_id = ''loop_inout_blink''"

subsection \<open>The host: engine and controller\<close>

definition sendShortMsg :: "nat \<Rightarrow> nat \<Rightarrow> val \<Rightarrow> state \<Rightarrow> state" where
  "sendShortMsg st d v s =
     s\<lparr>leds := (leds s)((st, d) \<mapsto> v), calls := calls s @ [SendShortMsg st d v]\<rparr>"

definition print :: "message \<Rightarrow> state \<Rightarrow> state" where
  "print m s = s\<lparr>calls := calls s @ [Print m]\<rparr>"

definition getValue :: "state \<Rightarrow> group \<Rightarrow> string \<Rightarrow> val" where
  "getValue s g k = ctl s g k"

text \<open>\<^verbatim>\<open>engine.beginTimer\<close> returns the new timer's id, which is \<open>next_id\<close> before the call.\<close>

definition beginTimer :: "nat \<Rightarrow> nat \<Rightarrow> blink \<Rightarrow> state \<Rightarrow> state" where
  "beginTimer period ch b s =
     s\<lparr>host_timers := host_timers s @
          [\<lparr>tm_id = next_id s, tm_period = period, tm_channel = ch, tm_blink = b,
            tm_blink_state = False\<rparr>],
       next_id := Suc (next_id s),
       calls := calls s @ [BeginTimer (next_id s) period ch b]\<rparr>"

definition stopTimer :: "nat \<Rightarrow> state \<Rightarrow> state" where
  "stopTimer t s =
     s\<lparr>host_timers := filter (\<lambda>x. tm_id x \<noteq> t) (host_timers s),
       calls := calls s @ [StopTimer t]\<rparr>"

text \<open>\<^verbatim>\<open>engine.makeConnection\<close> returns the connection, whose id is \<open>next_id\<close> before the call.\<close>

definition makeConnection :: "group \<Rightarrow> string \<Rightarrow> callback \<Rightarrow> state \<Rightarrow> state" where
  "makeConnection g k f s =
     s\<lparr>host_conns := host_conns s @
          [\<lparr>cn_id = next_id s, cn_group = g, cn_control = k, cn_fun = f\<rparr>],
       next_id := Suc (next_id s),
       calls := calls s @ [MakeConnection (next_id s) g k f]\<rparr>"

definition conn_disconnect :: "nat \<Rightarrow> state \<Rightarrow> state" where
  "conn_disconnect c s =
     s\<lparr>host_conns := filter (\<lambda>x. cn_id x \<noteq> c) (host_conns s),
       calls := calls s @ [Disconnect c]\<rparr>"

definition softTakeover :: "group \<Rightarrow> string \<Rightarrow> state \<Rightarrow> state" where
  "softTakeover g k s = s\<lparr>calls := calls s @ [SoftTakeover g k]\<rparr>"

definition softTakeoverIgnoreNextValue :: "group \<Rightarrow> string \<Rightarrow> state \<Rightarrow> state" where
  "softTakeoverIgnoreNextValue g k s = s\<lparr>calls := calls s @ [SoftTakeoverIgnoreNextValue g k]\<rparr>"

subsection \<open>Helpers (\<^verbatim>\<open>PioneerDDJ400.internal\<close>)\<close>

definition padchannel_to_channel :: "nat \<Rightarrow> nat" where
  "padchannel_to_channel padchannel = (if padchannel \<ge> 9 then 1 else 0)"

definition padchannel_has_shift :: "nat \<Rightarrow> bool" where
  "padchannel_has_shift padchannel = (if padchannel mod 2 \<noteq> 0 then False else True)"

definition channel_to_deck :: "state \<Rightarrow> nat \<Rightarrow> nat" where
  "channel_to_deck s ch = channel_mapping s ! ch"

definition group_to_deck :: "group \<Rightarrow> nat" where
  "group_to_deck g =
     (case g of
        Channel n \<Rightarrow>
          if n = 1 then 0 else if n = 2 then 1 else if n = 3 then 2 else if n = 4 then 3 else 0
      | _ \<Rightarrow> 0)"

definition deck_to_group :: "nat \<Rightarrow> group" where
  "deck_to_group d = Channel (d + 1)"

definition channel_to_group :: "state \<Rightarrow> nat \<Rightarrow> group" where
  "channel_to_group s ch = deck_to_group (channel_to_deck s ch)"

text \<open>
  \<^verbatim>\<open>deck_to_channel\<close> returns a channel and, when the deck is bound to neither channel,
  prints a warning first: the value is \<open>deck_to_channel\<close>, the print is
  \<open>deck_to_channel_warn\<close>.
\<close>

definition deck_to_channel :: "state \<Rightarrow> nat \<Rightarrow> nat" where
  "deck_to_channel s d =
     (if channel_mapping s ! 0 = d then 0
      else if channel_mapping s ! 1 = d then 1
      else 0)"

definition deck_to_channel_warn :: "nat \<Rightarrow> state \<Rightarrow> state" where
  "deck_to_channel_warn d s =
     (if channel_mapping s ! 0 = d then s
      else if channel_mapping s ! 1 = d then s
      else print (Warning_deck_not_active d) s)"

definition group_to_channel :: "state \<Rightarrow> group \<Rightarrow> nat" where
  "group_to_channel s g = deck_to_channel s (group_to_deck g)"

definition get_num_decks :: "state \<Rightarrow> nat" where
  "get_num_decks s = num_decks s"

text \<open>
  \<^verbatim>\<open>(old_deck + 2) % num_decks\<close>. JavaScript's \<^verbatim>\<open>%\<close> by 0 is NaN; the host always has
  at least one deck, and the statements below assume so where it matters.
\<close>

definition next_deck :: "state \<Rightarrow> nat \<Rightarrow> nat \<Rightarrow> nat" where
  "next_deck s ch old_deck = (old_deck + 2) mod get_num_decks s"

definition is_deck_active :: "state \<Rightarrow> nat \<Rightarrow> bool" where
  "is_deck_active s d = (channel_mapping s ! 0 = d \<or> channel_mapping s ! 1 = d)"

definition is_group_active :: "state \<Rightarrow> group \<Rightarrow> bool" where
  "is_group_active s g = is_deck_active s (group_to_deck g)"

definition update_light :: "nat \<Rightarrow> midi_out \<Rightarrow> bool \<Rightarrow> state \<Rightarrow> state" where
  "update_light ch m active s =
     sendShortMsg (status m + ch) (data1 m) (if active then 0x7F else 0) s"

definition set_backspin_length :: "val \<Rightarrow> state \<Rightarrow> state" where
  "set_backspin_length len s = sendShortMsg 0xBF 0x45 len s"

definition vu_meter_update :: "val \<Rightarrow> group \<Rightarrow> state \<Rightarrow> state" where
  "vu_meter_update v g s =
     (let scaled_value = v * 140 in
      seq [deck_to_channel_warn (group_to_deck g),
           sendShortMsg (status lights_vu_meter + group_to_channel s g)
             (data1 lights_vu_meter) scaled_value] s)"

definition track_loaded_animation :: "val \<Rightarrow> group \<Rightarrow> state \<Rightarrow> state" where
  "track_loaded_animation v g s =
     seq [deck_to_channel_warn (group_to_deck g),
          sendShortMsg (status lights_load_animation) (group_to_channel s g)
            (if v > 0 then 0x7F else 0x00)] s"

definition update_indicator ::
  "val \<Rightarrow> group \<Rightarrow> midi_out \<Rightarrow> midi_out option \<Rightarrow> state \<Rightarrow> state" where
  "update_indicator v g m shift_m s =
     (if \<not> is_group_active s g then s
      else
        let ch = group_to_channel s g in
        seq [update_light ch m (truthy v),
             (case shift_m of None \<Rightarrow> (\<lambda>s. s) | Some sm \<Rightarrow> update_light ch sm (truthy v))] s)"

definition play_indicator :: "val \<Rightarrow> group \<Rightarrow> state \<Rightarrow> state" where
  "play_indicator v g = update_indicator v g lights_play_pause (Some lights_shift_play_pause)"

definition cue_indicator :: "val \<Rightarrow> group \<Rightarrow> state \<Rightarrow> state" where
  "cue_indicator v g = update_indicator v g lights_cue (Some lights_shift_cue)"

definition beatsync_update :: "val \<Rightarrow> group \<Rightarrow> state \<Rightarrow> state" where
  "beatsync_update v g = update_indicator v g lights_beatsync None"

definition beatmaster_update :: "val \<Rightarrow> group \<Rightarrow> state \<Rightarrow> state" where
  "beatmaster_update v g = update_indicator v g lights_shift_beatsync None"

definition headphone_cue_update :: "val \<Rightarrow> group \<Rightarrow> state \<Rightarrow> state" where
  "headphone_cue_update v g = update_indicator v g lights_headphone_cue None"

definition quantize_update :: "val \<Rightarrow> group \<Rightarrow> state \<Rightarrow> state" where
  "quantize_update v g = update_indicator v g lights_shift_headphone_cue None"

definition set_pad_light :: "nat \<Rightarrow> nat \<Rightarrow> nat \<Rightarrow> bool \<Rightarrow> val \<Rightarrow> state \<Rightarrow> state" where
  "set_pad_light mode ch padnum shift v s =
     sendShortMsg (0x97 + 2 * (if ch \<noteq> 0 then 1 else 0) + (if shift then 1 else 0))
       (mode + padnum) v s"

definition keylock_update :: "val \<Rightarrow> group \<Rightarrow> state \<Rightarrow> state" where
  "keylock_update v g s =
     (if \<not> is_group_active s g then s
      else
        let ch = group_to_channel s g in
        set_pad_light pad_modes_beat_jump ch 3 True (if truthy v then 0x7F else 0x00) s)"

subsection \<open>Loop lights and loop-adjust state\<close>

definition get_loop_active :: "state \<Rightarrow> group \<Rightarrow> val" where
  "get_loop_active s g = getValue s g ''loop_enabled''"

definition set_reloop_light :: "nat \<Rightarrow> bool \<Rightarrow> state \<Rightarrow> state" where
  "set_reloop_light ch v =
     seq [update_light ch lights_reloop v, update_light ch lights_shift_reloop v]"

definition get_loop_adjust_state :: "state \<Rightarrow> nat \<Rightarrow> loop_modifier" where
  "get_loop_adjust_state s d = (case loop_adjust (deck s d) of Some m \<Rightarrow> m | None \<Rightarrow> none)"

text \<open>
  \<^verbatim>\<open>state.timers[channel][timer_id]\<close>: assigning \<^verbatim>\<open>undefined\<close> is removing the entry, since
  every read of the table compares with \<^verbatim>\<open>undefined\<close>.
\<close>

definition stop_blink :: "nat \<Rightarrow> state \<Rightarrow> state" where
  "stop_blink ch s =
     (case map_of (timers s ch) timer_id of
        None \<Rightarrow> s
      | Some t \<Rightarrow>
          seq [stopTimer t,
               (\<lambda>s. s\<lparr>timers := (timers s)(ch := AList.delete timer_id (timers s ch))\<rparr>)] s)"

text \<open>\<^verbatim>\<open>state.timers[channel][timer_id] = engine.beginTimer(period, closure)\<close>\<close>

definition begin_blink :: "nat \<Rightarrow> nat \<Rightarrow> blink \<Rightarrow> state \<Rightarrow> state" where
  "begin_blink ch period b s =
     (let t = next_id s; s' = beginTimer period ch b s
      in s'\<lparr>timers := (timers s')(ch := AList.update timer_id t (timers s' ch))\<rparr>)"

definition set_current_loop_modifier :: "nat \<Rightarrow> loop_modifier \<Rightarrow> state \<Rightarrow> state" where
  "set_current_loop_modifier ch m s =
     s\<lparr>channel := (channel s)(ch := (channel s ch)\<lparr>current_loop_modifier := Some m\<rparr>)\<rparr>"

definition update_loop_inout_lights :: "nat \<Rightarrow> state \<Rightarrow> state" where
  "update_loop_inout_lights ch s =
     (let loop_active = get_loop_active s (channel_to_group s ch) in
      if \<not> truthy loop_active then
        seq [stop_blink ch,
             update_light ch lights_loop_in True,
             update_light ch lights_loop_out True,
             update_light ch lights_shift_loop_in True,
             update_light ch lights_shift_loop_out True,
             set_current_loop_modifier ch none] s
      else
        let modifier = get_loop_adjust_state s (channel_to_deck s ch);
            timer_present = (map_of (timers s ch) timer_id \<noteq> None);
            cur_loop_mod = current_loop_modifier (channel s ch)
        in case modifier of
             none \<Rightarrow>
               if cur_loop_mod = Some none \<and> timer_present then s
               else
                 seq [stop_blink ch,
                      begin_blink ch times_loop_active Blink_both,
                      update_light ch lights_loop_in False,
                      update_light ch lights_loop_out False,
                      update_light ch lights_shift_loop_in False,
                      update_light ch lights_shift_loop_out False,
                      set_current_loop_modifier ch none] s
           | adjust_in \<Rightarrow>
               if cur_loop_mod = Some adjust_in \<and> timer_present then s
               else
                 seq [stop_blink ch,
                      begin_blink ch times_loop_adjust Blink_in,
                      update_light ch lights_loop_out False,
                      update_light ch lights_shift_loop_out False,
                      set_current_loop_modifier ch adjust_in] s
           | adjust_out \<Rightarrow>
               if cur_loop_mod = Some adjust_out \<and> timer_present then s
               else
                 seq [stop_blink ch,
                      update_light ch lights_loop_in False,
                      update_light ch lights_shift_loop_in False,
                      begin_blink ch times_loop_adjust Blink_out,
                      set_current_loop_modifier ch adjust_out] s)"

definition set_loop_adjust_state :: "nat \<Rightarrow> loop_modifier \<Rightarrow> state \<Rightarrow> state" where
  "set_loop_adjust_state d m s =
     (let s' = s\<lparr>deck := (deck s)(d := (deck s d)\<lparr>loop_adjust := Some m\<rparr>)\<rparr>
      in if is_deck_active s' d then update_loop_inout_lights (deck_to_channel s' d) s' else s')"

definition set_loop_enabled :: "val \<Rightarrow> group \<Rightarrow> state \<Rightarrow> state" where
  "set_loop_enabled v g s =
     (let d = group_to_deck g;
          s' = set_loop_adjust_state d none s
      in if is_group_active s' g then set_reloop_light (group_to_channel s' g) (truthy v) s'
         else s')"

text \<open>What an active blink timer does when it fires: the closure it was armed with.\<close>

definition blink_lights :: "blink \<Rightarrow> midi_out list" where
  "blink_lights b =
     (case b of
        Blink_both \<Rightarrow> [lights_loop_in, lights_loop_out, lights_shift_loop_in, lights_shift_loop_out]
      | Blink_in \<Rightarrow> [lights_loop_in, lights_shift_loop_in]
      | Blink_out \<Rightarrow> [lights_loop_out, lights_shift_loop_out])"

definition timer_fired :: "nat \<Rightarrow> state \<Rightarrow> state" where
  "timer_fired t s =
     (case find (\<lambda>x. tm_id x = t) (host_timers s) of
        None \<Rightarrow> s
      | Some x \<Rightarrow>
          let blink_state = \<not> tm_blink_state x;
              s' = s\<lparr>host_timers :=
                      map (\<lambda>y. if tm_id y = t then y\<lparr>tm_blink_state := blink_state\<rparr> else y)
                        (host_timers s)\<rparr>
          in seq (map (\<lambda>m. update_light (tm_channel x) m blink_state) (blink_lights (tm_blink x))) s')"

subsection \<open>Pads, effect light, samplers\<close>

definition update_beatloop :: "val \<Rightarrow> group \<Rightarrow> nat \<Rightarrow> state \<Rightarrow> state" where
  "update_beatloop v g padnum s =
     (if \<not> is_group_active s g then s
      else
        let ch = group_to_channel s g in
        set_pad_light pad_modes_beat_loop ch padnum False (if truthy v then 0x7F else 0x00) s)"

definition update_deck_channel_indicator :: "nat \<Rightarrow> state \<Rightarrow> state" where
  "update_deck_channel_indicator ch s =
     (let d = channel_to_deck s ch;
          is_primary = (if d = primary_deck ! ch then 0x7F else 0x00)
      in set_pad_light pad_modes_beat_jump ch 0 True is_primary s)"

definition get_last_shift_channel :: "state \<Rightarrow> nat" where
  "get_last_shift_channel s = last_shift_button_pressed s"

definition get_deck_effect_unit :: "state \<Rightarrow> nat \<Rightarrow> nat option" where
  "get_deck_effect_unit s d = effect_unit (deck s d)"

definition get_effect_unit_group :: "nat option \<Rightarrow> group" where
  "get_effect_unit_group unit = EffectUnit unit"

definition get_deck_effect_unit_group :: "state \<Rightarrow> nat \<Rightarrow> group" where
  "get_deck_effect_unit_group s d = get_effect_unit_group (get_deck_effect_unit s d)"

definition get_focussed_effect :: "state \<Rightarrow> nat \<Rightarrow> val" where
  "get_focussed_effect s d = getValue s (get_deck_effect_unit_group s d) ''focused_effect''"

definition get_effect_group :: "nat option \<Rightarrow> val \<Rightarrow> group" where
  "get_effect_group unit slot = EffectSlot unit slot"

definition get_focussed_effect_group :: "state \<Rightarrow> nat \<Rightarrow> group" where
  "get_focussed_effect_group s d =
     get_effect_group (get_deck_effect_unit s d) (get_focussed_effect s d)"

definition get_effect_deck :: "state \<Rightarrow> nat" where
  "get_effect_deck s = channel_to_deck s (get_last_shift_channel s)"

definition update_fx_light :: "state \<Rightarrow> state" where
  "update_fx_light s =
     (let d = get_effect_deck s;
          enabled = getValue s (get_focussed_effect_group s d) ''enabled''
      in update_light 0 lights_beat_fx (truthy enabled) s)"

definition allow_beatjump_downscale :: "state \<Rightarrow> nat \<Rightarrow> bool" where
  "allow_beatjump_downscale s ch =
     (\<not> (case beatjump_scalestep (channel s ch) of None \<Rightarrow> False | Some k \<Rightarrow> k \<le> - 1))"

definition allow_beatjump_upscale :: "state \<Rightarrow> nat \<Rightarrow> bool" where
  "allow_beatjump_upscale s ch =
     (\<not> (case beatjump_scalestep (channel s ch) of None \<Rightarrow> False | Some k \<Rightarrow> k \<ge> 1))"

definition update_beatjump_shift_lights :: "nat \<Rightarrow> state \<Rightarrow> state" where
  "update_beatjump_shift_lights ch s =
     seq [set_pad_light pad_modes_beat_jump ch 6 True
            (if allow_beatjump_downscale s ch then 0x7F else 0x00),
          set_pad_light pad_modes_beat_jump ch 7 True
            (if allow_beatjump_upscale s ch then 0x7F else 0x00)] s"

definition update_hotcue :: "val \<Rightarrow> group \<Rightarrow> nat \<Rightarrow> state \<Rightarrow> state" where
  "update_hotcue v g padnum s =
     (if \<not> is_group_active s g then s
      else
        let ch = group_to_channel s g in
        seq [set_pad_light pad_modes_hot_cue ch padnum False (if truthy v then 0x7F else 0x00),
             set_pad_light pad_modes_hot_cue ch padnum True (if truthy v then 0x7F else 0x00)] s)"

definition update_sampler :: "val \<Rightarrow> group \<Rightarrow> state \<Rightarrow> state" where
  "update_sampler v sampler_group s =
     fold (\<lambda>d s.
        if \<not> is_deck_active s d then s
        else
          let ch = deck_to_channel s d;
              deck_samplers = sampler_groups ! d
          in fold (\<lambda>padnum s.
               if sampler_group = Sampler (deck_samplers ! padnum) then
                 seq [set_pad_light pad_modes_sampler ch padnum False
                        (if truthy v then 0x7F else 0x00),
                      set_pad_light pad_modes_sampler ch padnum True
                        (if truthy v then 0x7F else 0x00)] s
               else s) [0..<length deck_samplers] s)
       [0..<get_num_decks s] s"

definition update_brake_light :: "state \<Rightarrow> state" where
  "update_brake_light =
     seq [set_pad_light pad_modes_fx_1 0 0 False 0x7F,
          set_pad_light pad_modes_fx_1 1 0 False 0x7F]"

definition update_head_split_light :: "val \<Rightarrow> state \<Rightarrow> state" where
  "update_head_split_light v =
     seq [set_pad_light pad_modes_beat_jump 0 1 True (if truthy v then 0x7F else 0x00),
          set_pad_light pad_modes_beat_jump 1 1 True (if truthy v then 0x7F else 0x00)]"

subsection \<open>Observers and connections\<close>

text \<open>The host calls an observer as \<^verbatim>\<open>f(value, group, control)\<close>.\<close>

definition run_callback :: "callback \<Rightarrow> val \<Rightarrow> group \<Rightarrow> state \<Rightarrow> state" where
  "run_callback f v g s =
     (case f of
        Play_indicator \<Rightarrow> play_indicator v g s
      | Cue_indicator \<Rightarrow> cue_indicator v g s
      | Vu_meter_update \<Rightarrow> vu_meter_update v g s
      | Track_loaded_animation \<Rightarrow> track_loaded_animation v g s
      | Beatsync_update \<Rightarrow> beatsync_update v g s
      | Beatmaster_update \<Rightarrow> beatmaster_update v g s
      | Headphone_cue_update \<Rightarrow> headphone_cue_update v g s
      | Quantize_update \<Rightarrow> quantize_update v g s
      | Keylock_update \<Rightarrow> keylock_update v g s
      | Set_loop_enabled \<Rightarrow> set_loop_enabled v g s
      | Update_beatloop padnum \<Rightarrow> update_beatloop v g padnum s
      | Update_hotcue padnum \<Rightarrow> update_hotcue v g padnum s
      | Update_sampler \<Rightarrow> update_sampler v g s
      | Update_fx_light \<Rightarrow> update_fx_light s
      | Update_head_split_light \<Rightarrow> update_head_split_light v s)"

definition observe :: "callback \<Rightarrow> val \<Rightarrow> group \<Rightarrow> state \<Rightarrow> state" where
  "observe f v g s = run_callback f v g (s\<lparr>calls := calls s @ [Called f v g]\<rparr>)"

text \<open>\<^verbatim>\<open>connection.trigger()\<close>: the host calls the observer with the control's current value.\<close>

definition trigger :: "nat \<Rightarrow> state \<Rightarrow> state" where
  "trigger c s =
     (let s' = s\<lparr>calls := calls s @ [Trigger c]\<rparr> in
      case find (\<lambda>x. cn_id x = c) (host_conns s) of
        None \<Rightarrow> s'
      | Some x \<Rightarrow> observe (cn_fun x) (getValue s (cn_group x) (cn_control x)) (cn_group x) s')"

definition output_control_to_function :: "(string \<times> callback \<times> bool) list" where
  "output_control_to_function =
     [(''play_indicator'', Play_indicator, True),
      (''cue_indicator'', Cue_indicator, True),
      (''VuMeter'', Vu_meter_update, True),
      (''track_loaded'', Track_loaded_animation, False),
      (''sync_enabled'', Beatsync_update, True),
      (''sync_master'', Beatmaster_update, True),
      (''pfl'', Headphone_cue_update, True),
      (''quantize'', Quantize_update, True),
      (''keylock'', Keylock_update, True),
      (''loop_enabled'', Set_loop_enabled, True),
      (''beatloop_0.25_enabled'', Update_beatloop 0, True),
      (''beatloop_0.5_enabled'', Update_beatloop 1, True),
      (''beatloop_1_enabled'', Update_beatloop 2, True),
      (''beatloop_2_enabled'', Update_beatloop 3, True),
      (''beatloop_4_enabled'', Update_beatloop 4, True),
      (''beatloop_8_enabled'', Update_beatloop 5, True),
      (''beatloop_16_enabled'', Update_beatloop 6, True),
      (''beatloop_32_enabled'', Update_beatloop 7, True),
      (''hotcue_1_enabled'', Update_hotcue 0, True),
      (''hotcue_2_enabled'', Update_hotcue 1, True),
      (''hotcue_3_enabled'', Update_hotcue 2, True),
      (''hotcue_4_enabled'', Update_hotcue 3, True),
      (''hotcue_5_enabled'', Update_hotcue 4, True),
      (''hotcue_6_enabled'', Update_hotcue 5, True),
      (''hotcue_7_enabled'', Update_hotcue 6, True),
      (''hotcue_8_enabled'', Update_hotcue 7, True)]"

text \<open>\<^verbatim>\<open>state.connections[channel][key] = connection\<close>\<close>

definition connections_put :: "nat \<Rightarrow> conn_key \<Rightarrow> nat \<Rightarrow> state \<Rightarrow> state" where
  "connections_put ch k c s =
     s\<lparr>connections := (connections s)(ch := AList.update k c (connections s ch))\<rparr>"

text \<open>\<^verbatim>\<open>state.connections[channel][key].trigger()\<close>\<close>

definition connections_trigger :: "nat \<Rightarrow> conn_key \<Rightarrow> state \<Rightarrow> state" where
  "connections_trigger ch k s =
     (case map_of (connections s ch) k of None \<Rightarrow> s | Some c \<Rightarrow> trigger c s)"

definition connect_samplers :: "nat \<Rightarrow> state \<Rightarrow> state" where
  "connect_samplers ch s =
     (let d = channel_to_deck s ch;
          deck_samplers = sampler_groups ! d
      in fold (\<lambda>padnum.
           let control_name = Sampler (deck_samplers ! padnum);
               control_key = Sampler_light (deck_samplers ! padnum)
           in seq [(\<lambda>s. connections_put ch control_key (next_id s)
                           (makeConnection control_name ''track_loaded'' Update_sampler s)),
                   connections_trigger ch control_key])
         [0..<length deck_samplers] s)"

definition connect_channel :: "nat \<Rightarrow> state \<Rightarrow> state" where
  "connect_channel ch s =
     (let d = channel_to_deck s ch;
          g = deck_to_group d
      in seq [print (Connecting ch d g),
              fold (\<lambda>(control, f, trig).
                 seq [(\<lambda>s. connections_put ch (Control control) (next_id s)
                              (makeConnection g control f s)),
                      (if trig then connections_trigger ch (Control control) else (\<lambda>s. s))])
                output_control_to_function,
              connect_samplers ch,
              update_deck_channel_indicator ch,
              update_fx_light] s)"

definition disconnect_channel :: "nat \<Rightarrow> state \<Rightarrow> state" where
  "disconnect_channel ch =
     seq [(\<lambda>s. fold (\<lambda>(k, t). stopTimer t) (timers s ch) s),
          (\<lambda>s. s\<lparr>timers := (timers s)(ch := [])\<rparr>),
          (\<lambda>s. fold (\<lambda>(k, c). conn_disconnect c) (connections s ch) s),
          (\<lambda>s. s\<lparr>connections := (connections s)(ch := [])\<rparr>),
          (\<lambda>s. let g = channel_to_group s ch;
                    eq_group = EqualizerRack1 g
                in seq [softTakeoverIgnoreNextValue eq_group ''parameter1'',
                        softTakeoverIgnoreNextValue eq_group ''parameter2'',
                        softTakeoverIgnoreNextValue eq_group ''parameter3'',
                        softTakeoverIgnoreNextValue (QuickEffectRack1 g) ''super1'',
                        softTakeoverIgnoreNextValue g ''pregain'',
                        softTakeoverIgnoreNextValue g ''volume''] s)]"

text \<open>\<^verbatim>\<open>PioneerDDJ400.state.channel_mapping[channel] = next_deck\<close>\<close>

definition set_channel_mapping :: "nat \<Rightarrow> nat \<Rightarrow> state \<Rightarrow> state" where
  "set_channel_mapping ch d s =
     s\<lparr>channel_mapping := (channel_mapping s)[ch := d], calls := calls s @ [Bind ch d]\<rparr>"

definition toggle_deck_channel :: "nat \<Rightarrow> state \<Rightarrow> state" where
  "toggle_deck_channel ch s =
     (let old_deck = channel_to_deck s ch;
          next = next_deck s ch old_deck
      in if old_deck = next then print Would_toggle_identical s
         else
           seq [print (Toggling_deck old_deck next),
                disconnect_channel ch,
                set_channel_mapping ch next,
                connect_channel ch] s)"

definition always_toggle_both :: bool where
  "always_toggle_both = False"

definition toggle_deck_channel_gateway :: "nat \<Rightarrow> state \<Rightarrow> state" where
  "toggle_deck_channel_gateway ch s =
     (if always_toggle_both then seq [toggle_deck_channel 0, toggle_deck_channel 1] s
      else toggle_deck_channel ch s)"

subsection \<open>The shift button\<close>

definition shift_double_press :: "nat \<Rightarrow> state \<Rightarrow> state" where
  "shift_double_press ch s = toggle_deck_channel_gateway ch s"

definition get_shift_double :: "state \<Rightarrow> nat \<Rightarrow> bool" where
  "get_shift_double s ch = (case shift_double (channel s ch) of Some b \<Rightarrow> b | None \<Rightarrow> False)"

definition set_shift_double :: "nat \<Rightarrow> bool \<Rightarrow> state \<Rightarrow> state" where
  "set_shift_double ch v s =
     s\<lparr>channel := (channel s)(ch := (channel s ch)\<lparr>shift_double := Some v\<rparr>)\<rparr>"

definition get_shift_button_pressed :: "state \<Rightarrow> nat \<Rightarrow> bool" where
  "get_shift_button_pressed s ch =
     (case shift_button_pressed (channel s ch) of Some b \<Rightarrow> b | None \<Rightarrow> False)"

definition get_last_shift_time :: "state \<Rightarrow> nat \<Rightarrow> int" where
  "get_last_shift_time s ch = (case shift_time (channel s ch) of Some t \<Rightarrow> t | None \<Rightarrow> 0)"

text \<open>\<open>now\<close> is what \<^verbatim>\<open>Date.now()\<close> returns during the call: milliseconds since 1970.\<close>

definition set_shift_button_pressed :: "nat \<Rightarrow> bool \<Rightarrow> int \<Rightarrow> state \<Rightarrow> state" where
  "set_shift_button_pressed ch pressed now s =
     (let s1 = s\<lparr>channel := (channel s)(ch := (channel s ch)\<lparr>shift_button_pressed := Some pressed\<rparr>)\<rparr>;
          last_ch = last_shift_button_pressed s1;
          s2 = s1\<lparr>last_shift_button_pressed := ch\<rparr>;
          s3 = (if last_ch \<noteq> ch then update_fx_light s2 else s2);
          new_pressed = now;
          within_time = (new_pressed - get_last_shift_time s3 ch < times_double_press)
      in if pressed then
           seq [set_shift_double ch within_time,
                (\<lambda>s. if \<not> within_time
                      then s\<lparr>channel := (channel s)(ch := (channel s ch)\<lparr>shift_time := Some new_pressed\<rparr>)\<rparr>
                      else s)] s3
         else if within_time \<and> get_shift_double s3 ch then shift_double_press ch s3
         else s3)"

subsection \<open>Handlers of controller input\<close>

definition shiftPressed :: "nat \<Rightarrow> nat \<Rightarrow> int \<Rightarrow> state \<Rightarrow> state" where
  "shiftPressed ch v now s = set_shift_button_pressed ch (v = 0x7F) now s"

text \<open>
  When no loop is active, \<^verbatim>\<open>loop_in\<close> and \<^verbatim>\<open>loop_out\<close> only send \<^verbatim>\<open>engine.setValue\<close>
  commands.
\<close>

definition loop_in :: "nat \<Rightarrow> nat \<Rightarrow> state \<Rightarrow> state" where
  "loop_in ch v s =
     (if v = 0 then s
      else
        let d = channel_to_deck s ch;
            g = deck_to_group d
        in if truthy (get_loop_active s g) then
             (if get_loop_adjust_state s d = adjust_in then set_loop_adjust_state d none s
              else set_loop_adjust_state d adjust_in s)
           else s)"

definition loop_out :: "nat \<Rightarrow> nat \<Rightarrow> state \<Rightarrow> state" where
  "loop_out ch v s =
     (if v = 0 then s
      else
        let d = channel_to_deck s ch;
            g = deck_to_group d
        in if truthy (get_loop_active s g) then
             (if get_loop_adjust_state s d = adjust_out then set_loop_adjust_state d none s
              else set_loop_adjust_state d adjust_out s)
           else s)"

text \<open>
  \<^verbatim>\<open>state.channel[channel].beatjump_scalestep += k\<close>. On \<^verbatim>\<open>undefined\<close> the result is NaN,
  which like \<^verbatim>\<open>undefined\<close> fails every comparison: both are \<open>None\<close>.
\<close>

definition beatjump_scalestep_add :: "nat \<Rightarrow> int \<Rightarrow> state \<Rightarrow> state" where
  "beatjump_scalestep_add ch k s =
     s\<lparr>channel := (channel s)(ch := (channel s ch)
         \<lparr>beatjump_scalestep := map_option (\<lambda>x. x + k) (beatjump_scalestep (channel s ch))\<rparr>)\<rparr>"

text \<open>
  Pads 2 and 4 of the shifted beatjump page (\<open>padnum\<close> 1 and 3) only send
  \<^verbatim>\<open>script.toggleControl\<close> commands.
\<close>

definition handle_beatjump_shift :: "nat \<Rightarrow> nat \<Rightarrow> state \<Rightarrow> state" where
  "handle_beatjump_shift ch padnum s =
     (if padnum = 0 then toggle_deck_channel_gateway ch s
      else if padnum = 1 then s
      else if padnum = 3 then s
      else
        let allow_upscale = allow_beatjump_upscale s ch;
            allow_downscale = allow_beatjump_downscale s ch
        in if padnum = 6 \<and> allow_downscale then
             seq [beatjump_scalestep_add ch (- 1), update_beatjump_shift_lights ch] s
           else if padnum = 7 \<and> allow_upscale then
             seq [beatjump_scalestep_add ch 1, update_beatjump_shift_lights ch] s
           else s)"

definition handle_beatjump :: "nat \<Rightarrow> nat \<Rightarrow> bool \<Rightarrow> nat \<Rightarrow> state \<Rightarrow> state" where
  "handle_beatjump ch padnum shift v s =
     (if v = 0 then s
      else if shift then handle_beatjump_shift ch padnum s
      else s)"

text \<open>
  \<^verbatim>\<open>control & 0x0f\<close> and \<^verbatim>\<open>control & 0xf0\<close> of a MIDI data byte. The pad modes other than
  beat jump only send commands to the host.
\<close>

definition handle_pad :: "nat \<Rightarrow> nat \<Rightarrow> nat \<Rightarrow> state \<Rightarrow> state" where
  "handle_pad padchannel control v s =
     (let ch = padchannel_to_channel padchannel;
          shift = padchannel_has_shift padchannel;
          padnum = control mod 16;
          mode = (control div 16 mod 16) * 16
      in if mode = pad_modes_beat_jump then handle_beatjump ch padnum shift v s else s)"

subsection \<open>Start and end\<close>

definition persistent_put :: "persistent_key \<Rightarrow> nat \<Rightarrow> state \<Rightarrow> state" where
  "persistent_put k c s =
     s\<lparr>persistent_connections := AList.update k c (persistent_connections s)\<rparr>"

definition get_num_effect_slots :: "state \<Rightarrow> nat \<Rightarrow> nat" where
  "get_num_effect_slots s unit = num_effectslots s unit"

text \<open>
  \<^verbatim>\<open>PioneerDDJ400.init\<close>. The animation is played for the groups \<^verbatim>\<open>0\<close> and \<^verbatim>\<open>1\<close>, which
  are numbers and no group names.
\<close>

definition init :: "state \<Rightarrow> state" where
  "init =
     seq [track_loaded_animation 1 (Number 0),
          track_loaded_animation 1 (Number 1),
          (\<lambda>s. fold (\<lambda>d s. s\<lparr>deck := (deck s)(d := (deck s d)
                   \<lparr>effect_unit := Some (default_effect_unit ! d)\<rparr>)\<rparr>) [0..<get_num_decks s] s),
          (\<lambda>s. s\<lparr>channel := (channel s)(0 := (channel s 0)\<lparr>beatjump_scalestep := Some 0\<rparr>)\<rparr>),
          (\<lambda>s. s\<lparr>channel := (channel s)(1 := (channel s 1)\<lparr>beatjump_scalestep := Some 0\<rparr>)\<rparr>),
          update_beatjump_shift_lights 0,
          update_beatjump_shift_lights 1,
          set_backspin_length 0x20,
          update_brake_light,
          (\<lambda>s. update_head_split_light (getValue s Master ''headSplit'') s),
          (\<lambda>s. persistent_put Head_split (next_id s)
                  (makeConnection Master ''headSplit'' Update_head_split_light s)),
          set_current_loop_modifier 0 none,
          set_current_loop_modifier 1 none,
          (\<lambda>s. fold (\<lambda>unit.
                   let unit_group = get_effect_unit_group (Some unit) in
                   seq [softTakeover unit_group ''mix'',
                        (\<lambda>s. persistent_put (Effect_unit_focussed unit) (next_id s)
                                (makeConnection unit_group ''focused_effect'' Update_fx_light s)),
                        (\<lambda>s. fold (\<lambda>slot.
                                 let effect_group = get_effect_group (Some unit) (real slot) in
                                 seq [softTakeover effect_group ''meta'',
                                      (\<lambda>s. persistent_put (Effect_unit_slot_enabled unit slot)
                                              (next_id s)
                                              (makeConnection effect_group ''enabled''
                                                 Update_fx_light s))])
                               [1..<Suc (get_num_effect_slots s unit)] s)])
                 [1..<Suc (num_effectunits s)] s),
          fold (\<lambda>d.
                  let g = deck_to_group d;
                      eq_group = EqualizerRack1 g
                  in seq [print (Setting_up_soft_takeover eq_group),
                          softTakeover eq_group ''parameter1'',
                          softTakeover eq_group ''parameter2'',
                          softTakeover eq_group ''parameter3'',
                          softTakeover (QuickEffectRack1 g) ''super1'',
                          softTakeover g ''pregain'',
                          softTakeover g ''volume''])
               [0..<4],
          connect_channel 0,
          connect_channel 1]"

definition shutdown :: "state \<Rightarrow> state" where
  "shutdown =
     seq [(\<lambda>s. fold (\<lambda>(k, c). conn_disconnect c) (persistent_connections s) s),
          (\<lambda>s. s\<lparr>persistent_connections := []\<rparr>),
          disconnect_channel 0,
          disconnect_channel 1]"

text \<open>
  The literal \<^verbatim>\<open>PioneerDDJ400.state\<close>, on a host with the given control values and numbers
  of decks, effect units and effect slots, no timer and no connection.
\<close>

definition state0 :: "(group \<Rightarrow> string \<Rightarrow> val) \<Rightarrow> nat \<Rightarrow> nat \<Rightarrow> (nat \<Rightarrow> nat) \<Rightarrow> state" where
  "state0 c nd nu ns =
     \<lparr>channel_mapping = [0, 1],
      connections = (\<lambda>_. []),
      timers = (\<lambda>_. []),
      channel = (\<lambda>_. \<lparr>shift_button_pressed = None, shift_double = None, shift_time = None,
                      beatjump_scalestep = None, current_loop_modifier = None\<rparr>),
      deck = (\<lambda>_. \<lparr>loop_adjust = None, effect_unit = None\<rparr>),
      persistent_connections = [],
      last_shift_button_pressed = 0,
      num_decks = nd,
      num_effectunits = nu,
      num_effectslots = ns,
      ctl = c,
      host_timers = [],
      host_conns = [],
      next_id = 0,
      leds = (\<lambda>_. None),
      calls = []\<rparr>"

subsection \<open>Events\<close>

text \<open>
  The host changes a control: the new value is in place, then every observer connected to
  the control is called with it.
\<close>

definition host_set :: "group \<Rightarrow> string \<Rightarrow> val \<Rightarrow> state \<Rightarrow> state" where
  "host_set g k v s =
     (let s' = s\<lparr>ctl := (ctl s)(g := (ctl s g)(k := v))\<rparr>
      in fold (\<lambda>c. observe (cn_fun c) v g)
           (filter (\<lambda>c. cn_group c = g \<and> cn_control c = k) (host_conns s')) s')"

datatype event =
    ShiftPressed nat nat int
  | LoopIn nat nat
  | LoopOut nat nat
  | HandlePad nat nat nat
  | HostSet group string val
  | TimerFired nat

fun step :: "event \<Rightarrow> state \<Rightarrow> state" where
  "step (ShiftPressed ch v now) s = shiftPressed ch v now s"
| "step (LoopIn ch v) s = loop_in ch v s"
| "step (LoopOut ch v) s = loop_out ch v s"
| "step (HandlePad padchannel control v) s = handle_pad padchannel control v s"
| "step (HostSet g k v) s = host_set g k v s"
| "step (TimerFired t) s = timer_fired t s"

text \<open>The controller has two decks: the channel of an event is 0 or 1.\<close>

fun event_ok :: "event \<Rightarrow> bool" where
  "event_ok (ShiftPressed ch v now) = (ch < 2)"
| "event_ok (LoopIn ch v) = (ch < 2)"
| "event_ok (LoopOut ch v) = (ch < 2)"
| "event_ok _ = True"

inductive reachable :: "state \<Rightarrow> bool" where
  start: "reachable (init (state0 c nd nu ns))"
| event: "reachable s \<Longrightarrow> event_ok e \<Longrightarrow> reachable (step e s)"

section \<open>Notions for the statements\<close>

subsection \<open>What an operation may change\<close>

text \<open>Plain entries: lights, soft-takeover settings and prints other than those of a toggle.\<close>

fun plain :: "log_entry \<Rightarrow> bool" where
  "plain (SendShortMsg _ _ _) = True"
| "plain (Print (Toggling_deck _ _)) = False"
| "plain (Print Would_toggle_identical) = False"
| "plain (Print _) = True"
| "plain (SoftTakeover _ _) = True"
| "plain (SoftTakeoverIgnoreNextValue _ _) = True"
| "plain _ = False"

fun timerish :: "log_entry \<Rightarrow> bool" where
  "timerish (BeginTimer _ _ _ _) = True"
| "timerish (StopTimer _) = True"
| "timerish _ = False"

text \<open>The id of the timer or connection that a log entry creates.\<close>

fun creates :: "log_entry \<Rightarrow> nat option" where
  "creates (BeginTimer i _ _ _) = Some i"
| "creates (MakeConnection i _ _ _) = Some i"
| "creates _ = None"

text \<open>The entries that \<^verbatim>\<open>toggle_deck_channel\<close> itself logs.\<close>

fun rebinds :: "log_entry \<Rightarrow> bool" where
  "rebinds (Print (Toggling_deck _ _)) = True"
| "rebinds (Print Would_toggle_identical) = True"
| "rebinds (Bind _ _) = True"
| "rebinds _ = False"

text \<open>\<open>logs P s s'\<close>: from \<open>s\<close> to \<open>s'\<close> the log grew by entries that satisfy \<open>P\<close>.\<close>

definition logs :: "(log_entry \<Rightarrow> bool) \<Rightarrow> state \<Rightarrow> state \<Rightarrow> bool" where
  "logs P s s' \<longleftrightarrow> (\<exists>C. calls s' = calls s @ C \<and> list_all P C)"

text \<open>\<open>output_only s s'\<close>: from \<open>s\<close> to \<open>s'\<close> only lights were set and plain entries logged.\<close>

definition output_only :: "state \<Rightarrow> state \<Rightarrow> bool" where
  "output_only s s' \<longleftrightarrow>
     channel_mapping s' = channel_mapping s \<and> connections s' = connections s \<and>
     timers s' = timers s \<and> channel s' = channel s \<and> deck s' = deck s \<and>
     persistent_connections s' = persistent_connections s \<and>
     last_shift_button_pressed s' = last_shift_button_pressed s \<and>
     num_decks s' = num_decks s \<and> num_effectunits s' = num_effectunits s \<and>
     num_effectslots s' = num_effectslots s \<and> ctl s' = ctl s \<and>
     host_timers s' = host_timers s \<and> host_conns s' = host_conns s \<and>
     next_id s' = next_id s \<and> logs plain s s'"

text \<open>
  \<open>rebind_only s s'\<close>: what no operation below the shift and pad handlers touches, and that
  the ids created on the way are new.
\<close>

definition rebind_only :: "state \<Rightarrow> state \<Rightarrow> bool" where
  "rebind_only s s' \<longleftrightarrow>
     persistent_connections s' = persistent_connections s \<and>
     last_shift_button_pressed s' = last_shift_button_pressed s \<and>
     num_decks s' = num_decks s \<and> num_effectunits s' = num_effectunits s \<and>
     num_effectslots s' = num_effectslots s \<and> ctl s' = ctl s \<and>
     (\<forall>c. shift_button_pressed (channel s' c) = shift_button_pressed (channel s c) \<and>
          shift_double (channel s' c) = shift_double (channel s c) \<and>
          shift_time (channel s' c) = shift_time (channel s c) \<and>
          beatjump_scalestep (channel s' c) = beatjump_scalestep (channel s c)) \<and>
     (\<forall>d. effect_unit (deck s' d) = effect_unit (deck s d)) \<and>
     next_id s \<le> next_id s' \<and>
     (\<exists>C. calls s' = calls s @ C \<and>
          (\<forall>e\<in>set C. \<forall>i. creates e = Some i \<longrightarrow> next_id s \<le> i \<and> i < next_id s'))"

text \<open>\<open>connect_only s s'\<close>: in addition the binding is untouched.\<close>

definition connect_only :: "state \<Rightarrow> state \<Rightarrow> bool" where
  "connect_only s s' \<longleftrightarrow>
     rebind_only s s' \<and> channel_mapping s' = channel_mapping s \<and>
     logs (\<lambda>e. \<not> rebinds e) s s'"

text \<open>
  \<open>loop_only s s'\<close>: in addition the connections are untouched; what may change is the
  blink timer, the loop-adjust state and the lights.
\<close>

definition loop_only :: "state \<Rightarrow> state \<Rightarrow> bool" where
  "loop_only s s' \<longleftrightarrow>
     connect_only s s' \<and> connections s' = connections s \<and> host_conns s' = host_conns s \<and>
     logs (\<lambda>e. (plain e \<or> timerish e) \<and> \<not> rebinds e) s s'"

text \<open>\<open>blink_only s s'\<close>: in addition the loop-adjust state of every deck is untouched.\<close>

definition blink_only :: "state \<Rightarrow> state \<Rightarrow> bool" where
  "blink_only s s' \<longleftrightarrow> loop_only s s' \<and> deck s' = deck s"

text \<open>What \<^verbatim>\<open>init\<close> leaves as it is.\<close>

definition init_keeps :: "state \<Rightarrow> state \<Rightarrow> bool" where
  "init_keeps s s' \<longleftrightarrow>
     channel_mapping s' = channel_mapping s \<and>
     last_shift_button_pressed s' = last_shift_button_pressed s \<and>
     num_decks s' = num_decks s \<and> num_effectunits s' = num_effectunits s \<and>
     num_effectslots s' = num_effectslots s \<and> ctl s' = ctl s \<and>
     (\<forall>c. shift_button_pressed (channel s' c) = shift_button_pressed (channel s c) \<and>
          shift_double (channel s' c) = shift_double (channel s c) \<and>
          shift_time (channel s' c) = shift_time (channel s c))"

text \<open>
  \<open>button_only s s'\<close>: what a button handler changes before it calls another operation:
  the shift and beatjump-scale fields of a channel, the last shift button, and lights.
\<close>

definition button_only :: "state \<Rightarrow> state \<Rightarrow> bool" where
  "button_only s s' \<longleftrightarrow>
     channel_mapping s' = channel_mapping s \<and> connections s' = connections s \<and>
     timers s' = timers s \<and> deck s' = deck s \<and>
     persistent_connections s' = persistent_connections s \<and>
     num_decks s' = num_decks s \<and> num_effectunits s' = num_effectunits s \<and>
     num_effectslots s' = num_effectslots s \<and> ctl s' = ctl s \<and>
     host_timers s' = host_timers s \<and> host_conns s' = host_conns s \<and>
     next_id s' = next_id s \<and>
     (\<forall>c. current_loop_modifier (channel s' c) = current_loop_modifier (channel s c)) \<and>
     logs plain s s'"

definition keeps_scale :: "state \<Rightarrow> state \<Rightarrow> bool" where
  "keeps_scale s s' \<longleftrightarrow>
     (\<forall>c. beatjump_scalestep (channel s' c) = beatjump_scalestep (channel s c)) \<and>
     (\<forall>d. effect_unit (deck s' d) = effect_unit (deck s d))"

subsection \<open>Invariants\<close>

text \<open>Every id in use is below \<open>next_id\<close>.\<close>

definition ids_ok :: "state \<Rightarrow> bool" where
  "ids_ok s \<longleftrightarrow>
     (\<forall>x\<in>set (host_timers s). tm_id x < next_id s) \<and>
     (\<forall>x\<in>set (host_conns s). cn_id x < next_id s) \<and>
     (\<forall>c. \<forall>i\<in>snd ` set (timers s c). i < next_id s) \<and>
     (\<forall>c. \<forall>i\<in>snd ` set (connections s c). i < next_id s) \<and>
     (\<forall>e\<in>set (calls s). \<forall>i. creates e = Some i \<longrightarrow> i < next_id s)"

text \<open>
  Replaying the timer entries of a log from the active timers \<open>A\<close> (id and channel of each):
  \<open>None\<close> when a timer is armed for a channel that still has an active one.
\<close>

fun blink_log :: "(nat \<times> nat) list \<Rightarrow> log_entry list \<Rightarrow> (nat \<times> nat) list option" where
  "blink_log A [] = Some A"
| "blink_log A (BeginTimer i p c b # es) =
     (if c \<in> snd ` set A then None else blink_log (A @ [(i, c)]) es)"
| "blink_log A (StopTimer i # es) = blink_log (filter (\<lambda>x. fst x \<noteq> i) A) es"
| "blink_log A (_ # es) = blink_log A es"

text \<open>The timers (id and channel) that are active after a log, starting with none.\<close>

definition active_timers :: "log_entry list \<Rightarrow> (nat \<times> nat) list" where
  "active_timers es =
     fold (\<lambda>e A. case e of
                   BeginTimer i p c b \<Rightarrow> A @ [(i, c)]
                 | StopTimer i \<Rightarrow> filter (\<lambda>x. fst x \<noteq> i) A
                 | _ \<Rightarrow> A) es []"

text \<open>
  The host's active timers are those the script's table holds for the channel they blink,
  and the log accounts for them.
\<close>

definition timers_ok :: "state \<Rightarrow> bool" where
  "timers_ok s \<longleftrightarrow>
     (\<forall>x\<in>set (host_timers s). map_of (timers s (tm_channel x)) timer_id = Some (tm_id x)) \<and>
     distinct (map tm_id (host_timers s)) \<and>
     blink_log [] (calls s) = Some (map (\<lambda>x. (tm_id x, tm_channel x)) (host_timers s))"

definition state_ok :: "state \<Rightarrow> bool" where
  "state_ok s \<longleftrightarrow> ids_ok s \<and> timers_ok s"

definition no_timer :: "nat \<Rightarrow> state \<Rightarrow> bool" where
  "no_timer ch s \<longleftrightarrow> (\<forall>x\<in>set (host_timers s). tm_channel x \<noteq> ch)"

text \<open>
  The ids of the timers and connections that are active after a log, starting with none.
\<close>

fun log_step :: "log_entry \<Rightarrow> nat set \<Rightarrow> nat set" where
  "log_step (BeginTimer i _ _ _) A = insert i A"
| "log_step (MakeConnection i _ _ _) A = insert i A"
| "log_step (StopTimer i) A = A - {i}"
| "log_step (Disconnect i) A = A - {i}"
| "log_step _ A = A"

definition active_ids :: "log_entry list \<Rightarrow> nat set" where
  "active_ids es = fold log_step es {}"

text \<open>With four decks, channel 0 is bound to deck 0 or 2 and channel 1 to deck 1 or 3.\<close>

definition mapping_ok :: "state \<Rightarrow> bool" where
  "mapping_ok s \<longleftrightarrow>
     length (channel_mapping s) = 2 \<and>
     (num_decks s = 4 \<longrightarrow>
        (channel_mapping s ! 0 = 0 \<or> channel_mapping s ! 0 = 2) \<and>
        (channel_mapping s ! 1 = 1 \<or> channel_mapping s ! 1 = 3))"


text \<open>How often \<^verbatim>\<open>toggle_deck_channel\<close> was called: it prints one line per call.\<close>

fun toggle_msg :: "log_entry \<Rightarrow> bool" where
  "toggle_msg (Print (Toggling_deck _ _)) = True"
| "toggle_msg (Print Would_toggle_identical) = True"
| "toggle_msg _ = False"

definition fired :: "log_entry list \<Rightarrow> nat" where
  "fired es = length (filter toggle_msg es)"

subsection \<open>The connections of a channel\<close>

text \<open>The groups of the decks and samplers: the script observes them for one channel.\<close>

definition deckish :: "group \<Rightarrow> bool" where
  "deckish g = (case g of Channel n \<Rightarrow> True | Sampler n \<Rightarrow> True | _ \<Rightarrow> False)"

text \<open>
  \<open>held s c x\<close>: the script holds the host's connection \<open>x\<close> in the table of channel \<open>c\<close>, as
  a connection to a control of the deck bound to \<open>c\<close>, under the control's name, or to a
  sampler of that deck's bank, under the sampler's key.
\<close>

definition held :: "state \<Rightarrow> nat \<Rightarrow> connection \<Rightarrow> bool" where
  "held s c x \<longleftrightarrow>
     (Control (cn_control x), cn_id x) \<in> set (connections s c) \<and>
       cn_group x = channel_to_group s c \<or>
     (\<exists>n\<in>set (sampler_groups ! channel_to_deck s c).
        (Sampler_light n, cn_id x) \<in> set (connections s c) \<and> cn_group x = Sampler n)"

text \<open>
  Every live connection of the host to a deck or sampler is held by one of the channels
  in \<open>C\<close>; with \<open>C = {0, 1}\<close>, by a channel.
\<close>

definition conns_for :: "nat set \<Rightarrow> state \<Rightarrow> bool" where
  "conns_for C s \<longleftrightarrow> (\<forall>x\<in>set (host_conns s). deckish (cn_group x) \<longrightarrow> (\<exists>c\<in>C. held s c x))"

definition conns_ok :: "state \<Rightarrow> bool" where
  "conns_ok s \<longleftrightarrow> conns_for {0, 1} s"

text \<open>\<open>observes d x\<close>: the connection \<open>x\<close> is to deck \<open>d\<close> or to a sampler of its bank.\<close>

definition observes :: "nat \<Rightarrow> connection \<Rightarrow> bool" where
  "observes d x \<longleftrightarrow>
     cn_group x = deck_to_group d \<or> (\<exists>n\<in>set (sampler_groups ! d). cn_group x = Sampler n)"

text \<open>From \<open>s\<close> to \<open>s'\<close> the connections, in the host and in the tables, and the binding are kept.\<close>

definition conns_kept :: "state \<Rightarrow> state \<Rightarrow> bool" where
  "conns_kept s s' \<longleftrightarrow>
     host_conns s' = host_conns s \<and> connections s' = connections s \<and>
     channel_mapping s' = channel_mapping s"

text \<open>From \<open>s\<close> to \<open>s'\<close> the host's connections are those of \<open>s\<close> or have a new id.\<close>

definition conns_grow :: "state \<Rightarrow> state \<Rightarrow> bool" where
  "conns_grow s s' \<longleftrightarrow>
     next_id s \<le> next_id s' \<and>
     (\<forall>x\<in>set (host_conns s'). x \<in> set (host_conns s) \<or> next_id s \<le> cn_id x)"

text \<open>From \<open>s\<close> to \<open>s'\<close> the table of channel \<open>c\<close> is kept.\<close>

definition table_kept :: "nat \<Rightarrow> state \<Rightarrow> state \<Rightarrow> bool" where
  "table_kept c s s' \<longleftrightarrow> connections s' c = connections s c"

text \<open>
  \<^verbatim>\<open>init\<close> before it connects the channels: the host has no connection to a deck or
  sampler, and the tables are empty.
\<close>

definition unconnected :: "state \<Rightarrow> bool" where
  "unconnected s \<longleftrightarrow>
     conns_for {} s \<and> (\<forall>c. connections s c = []) \<and> channel_mapping s = [0, 1]"

subsection \<open>The lights of the beatjump scale pads\<close>

text \<open>
  The lights of the pads that lower and raise the beatjump scale have the second byte
  \<open>0x26\<close> and \<open>0x27\<close>. The observer of hotcue \<open>padnum\<close> sets the light with the second
  byte \<open>padnum\<close>.
\<close>

fun pad_safe :: "callback \<Rightarrow> bool" where
  "pad_safe (Update_hotcue padnum) = (padnum \<noteq> 0x26 \<and> padnum \<noteq> 0x27)"
| "pad_safe _ = True"

definition conns_pad_safe :: "state \<Rightarrow> bool" where
  "conns_pad_safe s \<longleftrightarrow> (\<forall>x\<in>set (host_conns s). pad_safe (cn_fun x))"

text \<open>
  \<open>pads_kept s s'\<close>: from \<open>s\<close> to \<open>s'\<close> no light with the second byte \<open>0x26\<close> or \<open>0x27\<close> was
  set, and the host's new connections are \<open>pad_safe\<close>.
\<close>

definition pads_kept :: "state \<Rightarrow> state \<Rightarrow> bool" where
  "pads_kept s s' \<longleftrightarrow>
     (\<forall>st. leds s' (st, 0x26) = leds s (st, 0x26) \<and> leds s' (st, 0x27) = leds s (st, 0x27)) \<and>
     (\<forall>x\<in>set (host_conns s'). x \<in> set (host_conns s) \<or> pad_safe (cn_fun x))"

text \<open>The same, when the observers that the host may call in \<open>s\<close> are \<open>pad_safe\<close>.\<close>

definition spares_pads :: "state \<Rightarrow> state \<Rightarrow> bool" where
  "spares_pads s s' \<longleftrightarrow> (conns_pad_safe s \<longrightarrow> pads_kept s s')"

text \<open>The two lights of each channel show whether the scale can be lowered and raised.\<close>

definition scale_lights_ok :: "state \<Rightarrow> bool" where
  "scale_lights_ok s \<longleftrightarrow>
     (\<forall>ch<2.
        leds s (0x98 + 2 * (if ch \<noteq> 0 then 1 else 0), 0x26) =
          Some (if allow_beatjump_downscale s ch then 0x7F else 0x00) \<and>
        leds s (0x98 + 2 * (if ch \<noteq> 0 then 1 else 0), 0x27) =
          Some (if allow_beatjump_upscale s ch then 0x7F else 0x00))"

subsection \<open>The lights of a channel\<close>

definition on_off :: "val \<Rightarrow> val" where
  "on_off v = (if truthy v then 0x7F else 0)"

text \<open>The address (status and first data byte) of a light and of a pad light of a channel.\<close>

definition light_at :: "midi_out \<Rightarrow> nat \<Rightarrow> nat \<times> nat" where
  "light_at m ch = (status m + ch, data1 m)"

definition pad_at :: "nat \<Rightarrow> nat \<Rightarrow> nat \<Rightarrow> bool \<Rightarrow> nat \<times> nat" where
  "pad_at mode ch padnum shift =
     (0x97 + 2 * (if ch \<noteq> 0 then 1 else 0) + (if shift then 1 else 0), mode + padnum)"

text \<open>Messages to lights, in order: the later one wins.\<close>

definition put :: "((nat \<times> nat) \<times> val) list \<Rightarrow> (nat \<times> nat \<Rightarrow> val option) \<Rightarrow> nat \<times> nat \<Rightarrow> val option" where
  "put W L = fold (\<lambda>(a, v) L. L(a \<mapsto> v)) W L"

text \<open>
  What the observer \<open>f\<close> of a control of the deck bound to channel \<open>ch\<close> sends to the lights
  when it is called with the control's value \<open>v\<close>. For \<open>Set_loop_enabled\<close>: when the channel
  has no blink timer, as after \<^verbatim>\<open>disconnect_channel\<close>; the loop-in and loop-out lights are
  steady on without a loop and start a blink period off with one.
\<close>

fun display :: "callback \<Rightarrow> val \<Rightarrow> nat \<Rightarrow> ((nat \<times> nat) \<times> val) list" where
  "display Play_indicator v ch =
     [(light_at lights_play_pause ch, on_off v), (light_at lights_shift_play_pause ch, on_off v)]"
| "display Cue_indicator v ch =
     [(light_at lights_cue ch, on_off v), (light_at lights_shift_cue ch, on_off v)]"
| "display Vu_meter_update v ch = [(light_at lights_vu_meter ch, v * 140)]"
| "display Track_loaded_animation v ch =
     [((status lights_load_animation, ch), if v > 0 then 0x7F else 0)]"
| "display Beatsync_update v ch = [(light_at lights_beatsync ch, on_off v)]"
| "display Beatmaster_update v ch = [(light_at lights_shift_beatsync ch, on_off v)]"
| "display Headphone_cue_update v ch = [(light_at lights_headphone_cue ch, on_off v)]"
| "display Quantize_update v ch = [(light_at lights_shift_headphone_cue ch, on_off v)]"
| "display Keylock_update v ch = [(pad_at pad_modes_beat_jump ch 3 True, on_off v)]"
| "display Set_loop_enabled v ch =
     [(light_at lights_loop_in ch, if truthy v then 0 else 0x7F),
      (light_at lights_loop_out ch, if truthy v then 0 else 0x7F),
      (light_at lights_shift_loop_in ch, if truthy v then 0 else 0x7F),
      (light_at lights_shift_loop_out ch, if truthy v then 0 else 0x7F),
      (light_at lights_reloop ch, on_off v),
      (light_at lights_shift_reloop ch, on_off v)]"
| "display (Update_beatloop padnum) v ch = [(pad_at pad_modes_beat_loop ch padnum False, on_off v)]"
| "display (Update_hotcue padnum) v ch =
     [(pad_at pad_modes_hot_cue ch padnum False, on_off v),
      (pad_at pad_modes_hot_cue ch padnum True, on_off v)]"
| "display _ v ch = []"

text \<open>
  The indicator surface of channel \<open>ch\<close> bound to deck \<open>d\<close>, for the control values \<open>c\<close>: each
  light with the value it shows. The lights of the controls that are declared to fire at
  once, the sampler pads of the deck's sampler bank, and the pad that tells whether the
  deck is the channel's primary deck.
\<close>

definition indicator_surface ::
  "(group \<Rightarrow> string \<Rightarrow> val) \<Rightarrow> nat \<Rightarrow> nat \<Rightarrow> ((nat \<times> nat) \<times> val) list" where
  "indicator_surface c ch d =
     concat (map (\<lambda>(control, f, trig).
                    if trig then display f (c (deck_to_group d) control) ch else [])
               output_control_to_function) @
     concat (map (\<lambda>padnum.
                    [(pad_at pad_modes_sampler ch padnum False,
                      on_off (c (Sampler (sampler_groups ! d ! padnum)) ''track_loaded'')),
                     (pad_at pad_modes_sampler ch padnum True,
                      on_off (c (Sampler (sampler_groups ! d ! padnum)) ''track_loaded''))])
               [0..<8]) @
     [(pad_at pad_modes_beat_jump ch 0 True, if d = primary_deck ! ch then 0x7F else 0x00)]"

text \<open>The observers of a deck's control that only set lights.\<close>

fun plain_observer :: "callback \<Rightarrow> bool" where
  "plain_observer Set_loop_enabled = False"
| "plain_observer Update_sampler = False"
| "plain_observer Update_fx_light = False"
| "plain_observer Update_head_split_light = False"
| "plain_observer _ = True"

text \<open>One round of the first loop and of the second loop of \<^verbatim>\<open>connect_channel\<close>.\<close>

definition connect_control :: "nat \<Rightarrow> group \<Rightarrow> string \<times> callback \<times> bool \<Rightarrow> state \<Rightarrow> state" where
  "connect_control ch g e =
     (case e of (control, f, trig) \<Rightarrow>
        seq [(\<lambda>s. connections_put ch (Control control) (next_id s)
                     (makeConnection g control f s)),
             (if trig then connections_trigger ch (Control control) else (\<lambda>s. s))])"

definition connect_sampler :: "nat \<Rightarrow> nat list \<Rightarrow> nat \<Rightarrow> state \<Rightarrow> state" where
  "connect_sampler ch deck_samplers padnum =
     seq [(\<lambda>s. connections_put ch (Sampler_light (deck_samplers ! padnum)) (next_id s)
                  (makeConnection (Sampler (deck_samplers ! padnum)) ''track_loaded''
                     Update_sampler s)),
          connections_trigger ch (Sampler_light (deck_samplers ! padnum))]"

text \<open>The observers that are called in a part of the log, in order.\<close>

fun called :: "log_entry \<Rightarrow> bool" where
  "called (Called _ _ _) = True"
| "called _ = False"

subsection \<open>Example hosts\<close>

definition quiet :: "group \<Rightarrow> string \<Rightarrow> val" where
  "quiet g k = 0"

definition three_slots :: "nat \<Rightarrow> nat" where
  "three_slots unit = 3"

definition looping :: "group \<Rightarrow> string \<Rightarrow> val" where
  "looping g k = (if k = ''loop_enabled'' then 1 else 0)"

definition four_decks_looping :: state where
  "four_decks_looping = init (state0 looping 4 2 three_slots)"

definition four_decks :: state where
  "four_decks = init (state0 quiet 4 2 three_slots)"

definition two_decks :: state where
  "two_decks = init (state0 quiet 2 2 three_slots)"

text \<open>
  Four decks, channel 0 toggled to deck 2, then the left shift button pressed and held and
  the right shift button pressed and held.
\<close>

definition both_shifts_held :: state where
  "both_shifts_held =
     shiftPressed 1 0x7F 2000 (shiftPressed 0 0x7F 1000 (toggle_deck_channel 0 four_decks))"

section \<open>Basic facts\<close>

lemma seq_Nil: "seq [] s = s"
  by (simp add: seq_def)

lemma seq_Cons: "seq (f # fs) s = seq fs (f s)"
  by (simp add: seq_def)

lemmas seq_simps = seq_Nil seq_Cons

text \<open>A reflexive and transitive relation that every step respects holds along a sequence.\<close>

lemma seq_rel:
  assumes "\<And>s. R s s" and "\<And>a b c. R a b \<Longrightarrow> R b c \<Longrightarrow> R a c"
    and "\<And>f s. f \<in> set fs \<Longrightarrow> R s (f s)"
  shows "R s (seq fs s)"
  using assms(3)
proof (induction fs arbitrary: s)
  case Nil
  then show ?case by (simp add: assms(1) seq_Nil)
next
  case (Cons f fs)
  have "R s (f s)" using Cons.prems by simp
  moreover have "R (f s) (seq fs (f s))" using Cons by simp
  ultimately show ?case using assms(2) by (auto simp: seq_Cons)
qed

lemma fold_rel:
  assumes "\<And>s. R s s" and "\<And>a b c. R a b \<Longrightarrow> R b c \<Longrightarrow> R a c"
    and "\<And>x s. x \<in> set xs \<Longrightarrow> R s (f x s)"
  shows "R s (fold f xs s)"
  using assms(3)
proof (induction xs arbitrary: s)
  case Nil
  then show ?case by (simp add: assms(1))
next
  case (Cons x xs)
  have "R s (f x s)" using Cons.prems by simp
  moreover have "R (f x s) (fold f xs (f x s))" using Cons by simp
  ultimately show ?case using assms(2) by auto
qed

text \<open>A state predicate that every step keeps holds after a sequence.\<close>

lemma seq_inv:
  assumes "P s" and "\<And>f s. f \<in> set fs \<Longrightarrow> P s \<Longrightarrow> P (f s)"
  shows "P (seq fs s)"
  using assms
proof (induction fs arbitrary: s)
  case Nil
  then show ?case by (simp add: seq_Nil)
next
  case (Cons f fs)
  then show ?case by (simp add: seq_Cons)
qed

lemma fold_inv:
  assumes "P s" and "\<And>x s. x \<in> set xs \<Longrightarrow> P s \<Longrightarrow> P (f x s)"
  shows "P (fold f xs s)"
  using assms
  by (induction xs arbitrary: s) simp_all

subsection \<open>Operations that only set lights\<close>

lemma logs_refl: "logs P s s"
  by (simp add: logs_def)

lemma logs_trans: "logs P a b \<Longrightarrow> logs P b c \<Longrightarrow> logs P a c"
  unfolding logs_def by (elim conjE exE) simp

lemma logs_mono: "logs P s s' \<Longrightarrow> (\<And>e. P e \<Longrightarrow> Q e) \<Longrightarrow> logs Q s s'"
  unfolding logs_def by (auto simp: list_all_iff)

lemma logs_one: "calls s' = calls s @ [e] \<Longrightarrow> P e \<Longrightarrow> logs P s s'"
  by (simp add: logs_def)

lemma logs_none: "calls s' = calls s \<Longrightarrow> logs P s s'"
  by (simp add: logs_def)

lemma output_only_refl: "output_only s s"
  by (simp add: output_only_def logs_refl)

lemma output_only_trans: "output_only a b \<Longrightarrow> output_only b c \<Longrightarrow> output_only a c"
  unfolding output_only_def by (auto intro: logs_trans)

lemma output_only_seq: "(\<And>f s. f \<in> set fs \<Longrightarrow> output_only s (f s)) \<Longrightarrow> output_only s (seq fs s)"
  by (rule seq_rel[where R = output_only]) (auto intro: output_only_refl output_only_trans)

lemma output_only_fold: "(\<And>x s. x \<in> set xs \<Longrightarrow> output_only s (f x s)) \<Longrightarrow> output_only s (fold f xs s)"
  by (rule fold_rel[where R = output_only]) (auto intro: output_only_refl output_only_trans)

named_theorems oo

lemma output_only_sendShortMsg [oo]: "output_only s (sendShortMsg a b c s)"
  by (simp add: output_only_def sendShortMsg_def logs_one)

lemma output_only_print [oo]:
  "output_only s (print (Warning_deck_not_active d) s)"
  "output_only s (print (Connecting ch d g) s)"
  "output_only s (print (Setting_up_soft_takeover g) s)"
  by (simp_all add: output_only_def print_def logs_one)

lemma output_only_softTakeover [oo]: "output_only s (softTakeover g k s)"
  by (simp add: output_only_def softTakeover_def logs_one)

lemma output_only_softTakeoverIgnoreNextValue [oo]:
  "output_only s (softTakeoverIgnoreNextValue g k s)"
  by (simp add: output_only_def softTakeoverIgnoreNextValue_def logs_one)

lemma output_only_update_light [oo]: "output_only s (update_light ch m a s)"
  unfolding update_light_def by (rule output_only_sendShortMsg)

lemma output_only_set_pad_light [oo]: "output_only s (set_pad_light mode ch padnum shift v s)"
  unfolding set_pad_light_def by (rule output_only_sendShortMsg)

lemma output_only_set_backspin_length [oo]: "output_only s (set_backspin_length v s)"
  unfolding set_backspin_length_def by (rule output_only_sendShortMsg)

lemma output_only_deck_to_channel_warn [oo]: "output_only s (deck_to_channel_warn d s)"
  unfolding deck_to_channel_warn_def by (simp add: output_only_refl output_only_print)

lemma output_only_update_indicator [oo]: "output_only s (update_indicator v g m sm s)"
  unfolding update_indicator_def Let_def
  by (auto intro!: output_only_seq output_only_refl oo split: option.splits)

lemma output_only_vu_meter_update [oo]: "output_only s (vu_meter_update v g s)"
  unfolding vu_meter_update_def Let_def
  by (auto intro!: output_only_seq oo)

lemma output_only_track_loaded_animation [oo]: "output_only s (track_loaded_animation v g s)"
  unfolding track_loaded_animation_def
  by (auto intro!: output_only_seq oo)

lemma output_only_play_indicator [oo]: "output_only s (play_indicator v g s)"
  unfolding play_indicator_def by (rule oo)

lemma output_only_cue_indicator [oo]: "output_only s (cue_indicator v g s)"
  unfolding cue_indicator_def by (rule oo)

lemma output_only_beatsync_update [oo]: "output_only s (beatsync_update v g s)"
  unfolding beatsync_update_def by (rule oo)

lemma output_only_beatmaster_update [oo]: "output_only s (beatmaster_update v g s)"
  unfolding beatmaster_update_def by (rule oo)

lemma output_only_headphone_cue_update [oo]: "output_only s (headphone_cue_update v g s)"
  unfolding headphone_cue_update_def by (rule oo)

lemma output_only_quantize_update [oo]: "output_only s (quantize_update v g s)"
  unfolding quantize_update_def by (rule oo)

lemma output_only_keylock_update [oo]: "output_only s (keylock_update v g s)"
  unfolding keylock_update_def Let_def
  by (auto intro!: output_only_refl oo)

lemma output_only_set_reloop_light [oo]: "output_only s (set_reloop_light ch v s)"
  unfolding set_reloop_light_def
  by (auto intro!: output_only_seq oo)

lemma output_only_update_beatloop [oo]: "output_only s (update_beatloop v g padnum s)"
  unfolding update_beatloop_def Let_def
  by (auto intro!: output_only_refl oo)

lemma output_only_update_deck_channel_indicator [oo]:
  "output_only s (update_deck_channel_indicator ch s)"
  unfolding update_deck_channel_indicator_def Let_def
  by (auto intro!: oo)

lemma output_only_update_fx_light [oo]: "output_only s (update_fx_light s)"
  unfolding update_fx_light_def Let_def
  by (auto intro!: oo)

lemma output_only_update_beatjump_shift_lights [oo]:
  "output_only s (update_beatjump_shift_lights ch s)"
  unfolding update_beatjump_shift_lights_def
  by (rule output_only_seq) (auto intro!: oo)

lemma output_only_update_hotcue [oo]: "output_only s (update_hotcue v g padnum s)"
  unfolding update_hotcue_def Let_def
  by (auto intro!: output_only_seq output_only_refl oo)

lemma output_only_update_sampler [oo]: "output_only s (update_sampler v g s)"
  unfolding update_sampler_def Let_def
  by (auto intro!: output_only_seq output_only_fold output_only_refl oo)

lemma output_only_update_brake_light [oo]: "output_only s (update_brake_light s)"
  unfolding update_brake_light_def
  by (auto intro!: output_only_seq oo)

lemma output_only_update_head_split_light [oo]: "output_only s (update_head_split_light v s)"
  unfolding update_head_split_light_def
  by (auto intro!: output_only_seq oo)


subsection \<open>The frames of the other operations\<close>

lemma rebind_only_refl: "rebind_only s s"
  by (simp add: rebind_only_def)

lemma rebind_only_trans:
  assumes "rebind_only a b" and "rebind_only b c"
  shows "rebind_only a c"
proof -
  from assms(1) obtain C where C: "calls b = calls a @ C"
    "\<forall>e\<in>set C. \<forall>i. creates e = Some i \<longrightarrow> next_id a \<le> i \<and> i < next_id b"
    unfolding rebind_only_def by blast
  from assms(2) obtain D where D: "calls c = calls b @ D"
    "\<forall>e\<in>set D. \<forall>i. creates e = Some i \<longrightarrow> next_id b \<le> i \<and> i < next_id c"
    unfolding rebind_only_def by blast
  have le: "next_id a \<le> next_id b" "next_id b \<le> next_id c"
    using assms unfolding rebind_only_def by blast+
  have "calls c = calls a @ (C @ D)" using C D by simp
  moreover have "\<forall>e\<in>set (C @ D). \<forall>i. creates e = Some i \<longrightarrow> next_id a \<le> i \<and> i < next_id c"
    using C(2) D(2) le by fastforce
  ultimately have "\<exists>E. calls c = calls a @ E \<and>
      (\<forall>e\<in>set E. \<forall>i. creates e = Some i \<longrightarrow> next_id a \<le> i \<and> i < next_id c)"
    by blast
  then show ?thesis
    using assms le unfolding rebind_only_def by simp
qed

lemma connect_only_refl: "connect_only s s"
  by (simp add: connect_only_def rebind_only_refl logs_refl)

lemma connect_only_trans: "connect_only a b \<Longrightarrow> connect_only b c \<Longrightarrow> connect_only a c"
  unfolding connect_only_def by (auto intro: logs_trans rebind_only_trans)

lemma loop_only_refl: "loop_only s s"
  by (simp add: loop_only_def connect_only_refl logs_refl)

lemma loop_only_trans: "loop_only a b \<Longrightarrow> loop_only b c \<Longrightarrow> loop_only a c"
  unfolding loop_only_def by (auto intro: logs_trans connect_only_trans)

lemma blink_only_refl: "blink_only s s"
  by (simp add: blink_only_def loop_only_refl)

lemma blink_only_trans: "blink_only a b \<Longrightarrow> blink_only b c \<Longrightarrow> blink_only a c"
  unfolding blink_only_def by (auto intro: loop_only_trans)

lemma plain_creates: "plain e \<Longrightarrow> creates e = None"
  by (cases e) simp_all

lemma plain_not_rebinds: "plain e \<Longrightarrow> \<not> rebinds e"
  by (cases e rule: rebinds.cases) simp_all

lemma output_only_blink_only: "output_only s s' \<Longrightarrow> blink_only s s'"
  unfolding output_only_def blink_only_def loop_only_def connect_only_def rebind_only_def
  by (auto simp: plain_creates plain_not_rebinds logs_def list_all_iff)

lemma blink_only_loop_only: "blink_only s s' \<Longrightarrow> loop_only s s'"
  by (simp add: blink_only_def)

lemma loop_only_connect_only: "loop_only s s' \<Longrightarrow> connect_only s s'"
  by (simp add: loop_only_def)

lemma connect_only_rebind_only: "connect_only s s' \<Longrightarrow> rebind_only s s'"
  by (simp add: connect_only_def)

lemma blink_only_seq: "(\<And>f s. f \<in> set fs \<Longrightarrow> blink_only s (f s)) \<Longrightarrow> blink_only s (seq fs s)"
  by (rule seq_rel[where R = blink_only]) (auto intro: blink_only_refl blink_only_trans)

lemma blink_only_fold: "(\<And>x s. x \<in> set xs \<Longrightarrow> blink_only s (f x s)) \<Longrightarrow> blink_only s (fold f xs s)"
  by (rule fold_rel[where R = blink_only]) (auto intro: blink_only_refl blink_only_trans)

lemma loop_only_seq: "(\<And>f s. f \<in> set fs \<Longrightarrow> loop_only s (f s)) \<Longrightarrow> loop_only s (seq fs s)"
  by (rule seq_rel[where R = loop_only]) (auto intro: loop_only_refl loop_only_trans)

lemma loop_only_fold: "(\<And>x s. x \<in> set xs \<Longrightarrow> loop_only s (f x s)) \<Longrightarrow> loop_only s (fold f xs s)"
  by (rule fold_rel[where R = loop_only]) (auto intro: loop_only_refl loop_only_trans)

lemma connect_only_seq: "(\<And>f s. f \<in> set fs \<Longrightarrow> connect_only s (f s)) \<Longrightarrow> connect_only s (seq fs s)"
  by (rule seq_rel[where R = connect_only]) (auto intro: connect_only_refl connect_only_trans)

lemma connect_only_fold: "(\<And>x s. x \<in> set xs \<Longrightarrow> connect_only s (f x s)) \<Longrightarrow> connect_only s (fold f xs s)"
  by (rule fold_rel[where R = connect_only]) (auto intro: connect_only_refl connect_only_trans)

lemma rebind_only_seq: "(\<And>f s. f \<in> set fs \<Longrightarrow> rebind_only s (f s)) \<Longrightarrow> rebind_only s (seq fs s)"
  by (rule seq_rel[where R = rebind_only]) (auto intro: rebind_only_refl rebind_only_trans)

lemma rebind_only_fold: "(\<And>x s. x \<in> set xs \<Longrightarrow> rebind_only s (f x s)) \<Longrightarrow> rebind_only s (fold f xs s)"
  by (rule fold_rel[where R = rebind_only]) (auto intro: rebind_only_refl rebind_only_trans)

lemmas rel_defs = blink_only_def loop_only_def connect_only_def rebind_only_def logs_def

named_theorems bo
named_theorems lo
named_theorems co
named_theorems ro

lemmas [bo] = oo[THEN output_only_blink_only]

lemma blink_only_stopTimer [bo]: "blink_only s (stopTimer t s)"
  by (simp add: rel_defs stopTimer_def)

lemma blink_only_beginTimer [bo]: "blink_only s (beginTimer p ch b s)"
  by (simp add: rel_defs beginTimer_def)

lemma blink_only_stop_blink [bo]: "blink_only s (stop_blink ch s)"
proof (cases "map_of (timers s ch) timer_id")
  case None
  then show ?thesis by (simp add: stop_blink_def blink_only_refl)
next
  case (Some t)
  have "blink_only (stopTimer t s)
     ((stopTimer t s)\<lparr>timers := (timers (stopTimer t s))(ch := AList.delete timer_id (timers (stopTimer t s) ch))\<rparr>)"
    by (simp add: rel_defs)
  then show ?thesis
    using Some blink_only_trans[OF blink_only_stopTimer] by (simp add: stop_blink_def seq_simps)
qed

lemma blink_only_begin_blink [bo]: "blink_only s (begin_blink ch p b s)"
  by (simp add: rel_defs begin_blink_def beginTimer_def Let_def)

lemma blink_only_set_current_loop_modifier [bo]: "blink_only s (set_current_loop_modifier ch m s)"
  by (simp add: rel_defs set_current_loop_modifier_def)

lemma blink_only_update_loop_inout_lights [bo]: "blink_only s (update_loop_inout_lights ch s)"
  unfolding update_loop_inout_lights_def Let_def
  by (auto intro!: blink_only_seq blink_only_refl bo split: loop_modifier.splits)

lemma blink_only_timer_fired [bo]: "blink_only s (timer_fired t s)"
proof (cases "find (\<lambda>x. tm_id x = t) (host_timers s)")
  case None
  then show ?thesis by (simp add: timer_fired_def blink_only_refl)
next
  case (Some x)
  let ?s' = "s\<lparr>host_timers := map (\<lambda>y. if tm_id y = t then y\<lparr>tm_blink_state := \<not> tm_blink_state x\<rparr> else y) (host_timers s)\<rparr>"
  have "blink_only s ?s'"
    by (simp add: rel_defs)
  moreover have "blink_only ?s' (seq (map (\<lambda>m. update_light (tm_channel x) m (\<not> tm_blink_state x)) (blink_lights (tm_blink x))) ?s')"
    by (rule blink_only_seq) (auto intro: bo)
  ultimately show ?thesis
    using Some by (simp add: timer_fired_def Let_def blink_only_trans)
qed

lemmas [lo] = bo[THEN blink_only_loop_only]

lemma loop_only_set_loop_adjust_state [lo]: "loop_only s (set_loop_adjust_state d m s)"
proof -
  have "loop_only s (s\<lparr>deck := (deck s)(d := (deck s d)\<lparr>loop_adjust := Some m\<rparr>)\<rparr>)"
    by (simp add: rel_defs)
  then show ?thesis
    unfolding set_loop_adjust_state_def Let_def
    by (auto intro: loop_only_trans lo)
qed

lemma loop_only_set_loop_enabled [lo]: "loop_only s (set_loop_enabled v g s)"
  unfolding set_loop_enabled_def Let_def
  by (auto intro: loop_only_trans lo)

lemma loop_only_run_callback [lo]: "loop_only s (run_callback f v g s)"
  unfolding run_callback_def
  by (cases f) (simp_all add: lo)

lemmas [co] = lo[THEN loop_only_connect_only]

lemma connect_only_makeConnection [co]: "connect_only s (makeConnection g k f s)"
  by (simp add: rel_defs makeConnection_def)

lemma connect_only_conn_disconnect [co]: "connect_only s (conn_disconnect c s)"
  by (simp add: rel_defs conn_disconnect_def)

lemma connect_only_connections_put [co]: "connect_only s (connections_put ch k c s)"
  by (simp add: rel_defs connections_put_def)

lemma connect_only_make_put [co]:
  "connect_only s (connections_put ch k c (makeConnection g ctrl f s))"
  by (rule connect_only_trans[OF connect_only_makeConnection connect_only_connections_put])

lemma connect_only_observe [co]: "connect_only s (observe f v g s)"
proof -
  have "connect_only s (s\<lparr>calls := calls s @ [Called f v g]\<rparr>)"
    by (simp add: rel_defs)
  then show ?thesis
    unfolding observe_def by (auto intro: connect_only_trans co)
qed

lemma connect_only_trigger [co]: "connect_only s (trigger c s)"
proof -
  have "connect_only s (s\<lparr>calls := calls s @ [Trigger c]\<rparr>)"
    by (simp add: rel_defs)
  then show ?thesis
    unfolding trigger_def Let_def
    by (auto intro: connect_only_trans co split: option.splits)
qed

lemma connect_only_connections_trigger [co]: "connect_only s (connections_trigger ch k s)"
  unfolding connections_trigger_def
  by (auto intro: connect_only_refl co split: option.splits)

lemma connect_only_connect_samplers [co]: "connect_only s (connect_samplers ch s)"
  unfolding connect_samplers_def Let_def
  by (auto intro!: connect_only_fold connect_only_seq co)

lemma connect_only_connect_channel [co]: "connect_only s (connect_channel ch s)"
  unfolding connect_channel_def Let_def
  by (auto intro!: connect_only_seq connect_only_fold connect_only_refl co)

lemma connect_only_disconnect_channel [co]: "connect_only s (disconnect_channel ch s)"
  unfolding disconnect_channel_def Let_def
  apply (rule connect_only_seq)
  apply (auto intro!: connect_only_fold connect_only_seq co)
   apply (simp_all add: rel_defs)
  done

lemmas [ro] = co[THEN connect_only_rebind_only]

lemma rebind_only_set_channel_mapping [ro]: "rebind_only s (set_channel_mapping ch d s)"
  by (simp add: rebind_only_def set_channel_mapping_def)

lemma rebind_only_print [ro]: "rebind_only s (print m s)"
  by (simp add: rebind_only_def print_def)

lemma rebind_only_toggle_deck_channel [ro]: "rebind_only s (toggle_deck_channel ch s)"
  unfolding toggle_deck_channel_def Let_def
  by (auto intro!: rebind_only_seq ro)

lemma rebind_only_toggle_deck_channel_gateway [ro]:
  "rebind_only s (toggle_deck_channel_gateway ch s)"
  unfolding toggle_deck_channel_gateway_def
  by (auto intro!: rebind_only_seq ro)

subsection \<open>The next deck\<close>

lemma channel_mapping_disconnect_channel:
  "channel_mapping (disconnect_channel ch s) = channel_mapping s"
  using connect_only_disconnect_channel[of s ch] by (simp add: connect_only_def)

lemma channel_mapping_connect_channel:
  "channel_mapping (connect_channel ch s) = channel_mapping s"
  using connect_only_connect_channel[of s ch] by (simp add: connect_only_def)

lemma channel_mapping_toggle_deck_channel:
  "channel_mapping (toggle_deck_channel ch s) =
     (if channel_to_deck s ch = next_deck s ch (channel_to_deck s ch) then channel_mapping s
      else (channel_mapping s)[ch := next_deck s ch (channel_to_deck s ch)])"
  by (simp add: toggle_deck_channel_def Let_def seq_simps print_def
      channel_mapping_connect_channel set_channel_mapping_def channel_mapping_disconnect_channel)

lemma num_decks_toggle_deck_channel: "num_decks (toggle_deck_channel ch s) = num_decks s"
  using rebind_only_toggle_deck_channel[of s ch] by (simp add: rebind_only_def)

lemma init_keeps_refl: "init_keeps s s"
  by (simp add: init_keeps_def)

lemma init_keeps_trans: "init_keeps a b \<Longrightarrow> init_keeps b c \<Longrightarrow> init_keeps a c"
  by (simp add: init_keeps_def)

lemma connect_only_init_keeps: "connect_only s s' \<Longrightarrow> init_keeps s s'"
  by (simp add: init_keeps_def connect_only_def rebind_only_def)

lemma init_keeps_seq: "(\<And>f s. f \<in> set fs \<Longrightarrow> init_keeps s (f s)) \<Longrightarrow> init_keeps s (seq fs s)"
  by (rule seq_rel[where R = init_keeps]) (auto intro: init_keeps_refl init_keeps_trans)

lemma init_keeps_fold: "(\<And>x s. x \<in> set xs \<Longrightarrow> init_keeps s (f x s)) \<Longrightarrow> init_keeps s (fold f xs s)"
  by (rule fold_rel[where R = init_keeps]) (auto intro: init_keeps_refl init_keeps_trans)

named_theorems ik
lemmas [ik] = co[THEN connect_only_init_keeps]

lemma init_keeps_persistent_put [ik]:
  "init_keeps s (persistent_put k c (makeConnection g ctrl f s))"
  by (simp add: init_keeps_def persistent_put_def makeConnection_def)

lemma init_keeps_init: "init_keeps s (init s)"
  unfolding init_def Let_def
  apply (rule init_keeps_seq)
  apply (auto intro!: init_keeps_seq init_keeps_fold ik)
  apply (simp_all add: init_keeps_def)
  done

lemma four_decks_facts:
  "num_decks four_decks = 4" "channel_mapping four_decks = [0, 1]"
  using init_keeps_init[of "state0 quiet 4 2 three_slots"]
  by (simp_all add: init_keeps_def four_decks_def state0_def)

lemma two_decks_facts:
  "num_decks two_decks = 2" "channel_mapping two_decks = [0, 1]"
  using init_keeps_init[of "state0 quiet 2 2 three_slots"]
  by (simp_all add: init_keeps_def two_decks_def state0_def)

text \<open>
  Claim C4, as the script has it: for every channel \<open>ch\<close> and the deck \<open>d\<close> bound to it, a
  toggle writes \<open>(d + 2) mod N\<close> into the binding of \<open>ch\<close>, for \<open>N\<close> decks, and leaves every
  other entry of the binding as it is; this is \<open>(d + N div 2) mod N\<close> when \<open>N = 4\<close>. With
  four decks, toggling a channel bound to deck 0 binds it to deck 2 and the binding of the
  other channel is unchanged.
\<close>

theorem next_deck_skips_two:
  "next_deck s ch d = (d + 2) mod num_decks s \<and>
   channel_mapping (toggle_deck_channel ch s) =
     (channel_mapping s)[ch := (channel_to_deck s ch + 2) mod num_decks s] \<and>
   (num_decks s = 4 \<longrightarrow>
      next_deck s ch d = (d + num_decks s div 2) mod num_decks s \<and>
      channel_mapping (toggle_deck_channel ch s) =
        (channel_mapping s)[ch := (channel_to_deck s ch + num_decks s div 2) mod num_decks s]) \<and>
   (num_decks s = 4 \<and> ch < length (channel_mapping s) \<and> channel_to_deck s ch = 0 \<longrightarrow>
      channel_to_deck (toggle_deck_channel ch s) ch = 2 \<and>
      (\<forall>c. c \<noteq> ch \<longrightarrow> channel_to_deck (toggle_deck_channel ch s) c = channel_to_deck s c))"
  by (simp add: next_deck_def get_num_decks_def channel_mapping_toggle_deck_channel
      channel_to_deck_def)

theorem next_deck_skips_two_witness:
  "num_decks four_decks = 4 \<and> (0::nat) < length (channel_mapping four_decks) \<and>
   channel_to_deck four_decks 0 = 0 \<and>
   next_deck four_decks 0 0 = (0 + 2) mod num_decks four_decks \<and>
   next_deck four_decks 0 0 = (0 + num_decks four_decks div 2) mod num_decks four_decks \<and>
   channel_mapping (toggle_deck_channel 0 four_decks) = [2, 1] \<and>
   channel_to_deck (toggle_deck_channel 0 four_decks) 0 = 2 \<and>
   channel_to_deck (toggle_deck_channel 0 four_decks) 1 = channel_to_deck four_decks 1"
  using next_deck_skips_two[of four_decks 0 0]
  by (simp add: four_decks_facts channel_to_deck_def)

text \<open>With two decks the script's next deck of deck 0 is deck 0, and half the count on is deck 1.\<close>

theorem next_deck_half_counterexample:
  "num_decks two_decks = 2 \<and> next_deck two_decks 0 0 = 0 \<and>
   (0 + num_decks two_decks div 2) mod num_decks two_decks = 1 \<and>
   next_deck two_decks 0 0 \<noteq> (0 + num_decks two_decks div 2) mod num_decks two_decks"
  by (simp add: two_decks_facts next_deck_def get_num_decks_def)

lemma four_decks_looping_facts:
  "num_decks four_decks_looping = 4" "channel_mapping four_decks_looping = [0, 1]"
  "ctl four_decks_looping = looping"
  using init_keeps_init[of "state0 looping 4 2 three_slots"]
  by (simp_all add: init_keeps_def four_decks_looping_def state0_def)

subsection \<open>Loop adjust\<close>

lemma deck_update_loop_inout_lights: "deck (update_loop_inout_lights ch s) = deck s"
  using blink_only_update_loop_inout_lights[of s ch] by (simp add: blink_only_def)

lemma get_loop_adjust_state_set:
  "get_loop_adjust_state (set_loop_adjust_state d m s) d' =
     (if d' = d then m else get_loop_adjust_state s d')"
  by (simp add: set_loop_adjust_state_def Let_def get_loop_adjust_state_def
      deck_update_loop_inout_lights)

lemma set_loop_adjust_state_keeps:
  "channel_mapping (set_loop_adjust_state d m s) = channel_mapping s"
  "ctl (set_loop_adjust_state d m s) = ctl s"
  using loop_only_set_loop_adjust_state[of s d m]
  by (simp_all add: rel_defs)

lemma loop_in_state:
  assumes "v \<noteq> 0" and "truthy (get_loop_active s (channel_to_group s ch))"
  shows "get_loop_adjust_state (loop_in ch v s) (channel_to_deck s ch) =
           (if get_loop_adjust_state s (channel_to_deck s ch) = adjust_in then none else adjust_in)"
    and "channel_mapping (loop_in ch v s) = channel_mapping s"
    and "ctl (loop_in ch v s) = ctl s"
  using assms
  by (simp_all add: loop_in_def Let_def channel_to_group_def get_loop_adjust_state_set
      set_loop_adjust_state_keeps)

lemma loop_out_state:
  assumes "v \<noteq> 0" and "truthy (get_loop_active s (channel_to_group s ch))"
  shows "get_loop_adjust_state (loop_out ch v s) (channel_to_deck s ch) =
           (if get_loop_adjust_state s (channel_to_deck s ch) = adjust_out then none else adjust_out)"
    and "channel_mapping (loop_out ch v s) = channel_mapping s"
    and "ctl (loop_out ch v s) = ctl s"
  using assms
  by (simp_all add: loop_out_def Let_def channel_to_group_def get_loop_adjust_state_set
      set_loop_adjust_state_keeps)

text \<open>
  Claim C7: while a loop is active on the deck bound to a channel, a press of loop-in
  switches the deck's loop-adjust state to \<open>none\<close> when it is \<open>adjust_in\<close> and to \<open>adjust_in\<close>
  otherwise, a press of loop-out does the same with \<open>adjust_out\<close>, a release changes
  nothing, press, release, press, release of loop-in from \<open>none\<close> ends in \<open>none\<close>, and
  loop-in followed by loop-out ends in \<open>adjust_out\<close>.
\<close>

theorem loop_adjust_toggle:
  assumes "ch < 2" and "length (channel_mapping s) = 2" and "channel_to_deck s ch < 4"
    and "v \<noteq> 0" and "truthy (get_loop_active s (channel_to_group s ch))"
  shows "get_loop_adjust_state (loop_in ch v s) (channel_to_deck s ch) =
           (if get_loop_adjust_state s (channel_to_deck s ch) = adjust_in then none else adjust_in) \<and>
         get_loop_adjust_state (loop_out ch v s) (channel_to_deck s ch) =
           (if get_loop_adjust_state s (channel_to_deck s ch) = adjust_out then none else adjust_out) \<and>
         loop_in ch 0 s = s \<and> loop_out ch 0 s = s \<and>
         (get_loop_adjust_state s (channel_to_deck s ch) = none \<longrightarrow>
            get_loop_adjust_state (loop_in ch 0 (loop_in ch v (loop_in ch 0 (loop_in ch v s))))
              (channel_to_deck s ch) = none) \<and>
         (get_loop_adjust_state s (channel_to_deck s ch) = none \<longrightarrow>
            get_loop_adjust_state (loop_out ch 0 (loop_out ch v (loop_out ch 0 (loop_out ch v s))))
              (channel_to_deck s ch) = none) \<and>
         get_loop_adjust_state (loop_out ch v (loop_in ch v s)) (channel_to_deck s ch) = adjust_out \<and>
         get_loop_adjust_state (loop_in ch v (loop_out ch v s)) (channel_to_deck s ch) = adjust_in"
proof -
  let ?d = "channel_to_deck s ch"
  note a = assms(4,5)
  have rel: "loop_in ch 0 s' = s'" "loop_out ch 0 s' = s'" for s'
    by (simp_all add: loop_in_def loop_out_def)
  have in1: "channel_to_deck (loop_in ch v s) ch = ?d"
    "truthy (get_loop_active (loop_in ch v s) (channel_to_group (loop_in ch v s) ch))"
    using a loop_in_state(2,3)[OF a]
    by (simp_all add: channel_to_deck_def channel_to_group_def get_loop_active_def getValue_def)
  have out1: "channel_to_deck (loop_out ch v s) ch = ?d"
    "truthy (get_loop_active (loop_out ch v s) (channel_to_group (loop_out ch v s) ch))"
    using a loop_out_state(2,3)[OF a]
    by (simp_all add: channel_to_deck_def channel_to_group_def get_loop_active_def getValue_def)
  have i2: "get_loop_adjust_state (loop_in ch v (loop_in ch v s)) ?d =
      (if get_loop_adjust_state (loop_in ch v s) ?d = adjust_in then none else adjust_in)"
    using loop_in_state(1)[OF a(1) in1(2)] in1(1) by simp
  have o2: "get_loop_adjust_state (loop_out ch v (loop_out ch v s)) ?d =
      (if get_loop_adjust_state (loop_out ch v s) ?d = adjust_out then none else adjust_out)"
    using loop_out_state(1)[OF a(1) out1(2)] out1(1) by simp
  have io: "get_loop_adjust_state (loop_out ch v (loop_in ch v s)) ?d =
      (if get_loop_adjust_state (loop_in ch v s) ?d = adjust_out then none else adjust_out)"
    using loop_out_state(1)[OF a(1) in1(2)] in1(1) by simp
  have oi: "get_loop_adjust_state (loop_in ch v (loop_out ch v s)) ?d =
      (if get_loop_adjust_state (loop_out ch v s) ?d = adjust_in then none else adjust_in)"
    using loop_in_state(1)[OF a(1) out1(2)] out1(1) by simp
  show ?thesis
    using loop_in_state(1)[OF a] loop_out_state(1)[OF a] i2 o2 io oi
    by (simp add: rel)
qed

theorem loop_adjust_toggle_witness:
  "(0::nat) < 2 \<and> length (channel_mapping four_decks_looping) = 2 \<and>
   channel_to_deck four_decks_looping 0 < 4 \<and> (127::nat) \<noteq> 0 \<and>
   truthy (get_loop_active four_decks_looping (channel_to_group four_decks_looping 0)) \<and>
   get_loop_adjust_state (loop_in 0 127 four_decks_looping) (channel_to_deck four_decks_looping 0) =
     (if get_loop_adjust_state four_decks_looping (channel_to_deck four_decks_looping 0) = adjust_in
      then none else adjust_in) \<and>
   get_loop_adjust_state (loop_out 0 127 (loop_in 0 127 four_decks_looping))
     (channel_to_deck four_decks_looping 0) = adjust_out"
  using loop_adjust_toggle[of 0 four_decks_looping 127]
  by (simp add: four_decks_looping_facts channel_to_deck_def channel_to_group_def
      get_loop_active_def getValue_def looping_def truthy_def)

subsection \<open>Button handlers, split into their own step and the operation they call\<close>

lemma button_only_refl: "button_only s s"
  by (simp add: button_only_def logs_refl)

lemma button_only_trans: "button_only a b \<Longrightarrow> button_only b c \<Longrightarrow> button_only a c"
  unfolding button_only_def by (auto intro: logs_trans)

lemma output_only_button_only: "output_only s s' \<Longrightarrow> button_only s s'"
  by (simp add: output_only_def button_only_def)

lemma set_shift_button_pressed_cases:
  "\<exists>s1. button_only s s1 \<and>
        (\<forall>c. beatjump_scalestep (channel s1 c) = beatjump_scalestep (channel s c)) \<and>
        last_shift_button_pressed s1 = ch \<and>
        (set_shift_button_pressed ch p now s = s1 \<or>
         set_shift_button_pressed ch p now s = toggle_deck_channel_gateway ch s1)"
proof -
  define s2 where "s2 = s\<lparr>channel := (channel s)(ch := (channel s ch)\<lparr>shift_button_pressed := Some p\<rparr>),
               last_shift_button_pressed := ch\<rparr>"
  define s3 where "s3 = (if last_shift_button_pressed s \<noteq> ch then update_fx_light s2 else s2)"
  define w where "w \<longleftrightarrow> now - get_last_shift_time s3 ch < times_double_press"
  define s4 where "s4 = seq [set_shift_double ch w,
                (\<lambda>s. if \<not> w
                      then s\<lparr>channel := (channel s)(ch := (channel s ch)\<lparr>shift_time := Some now\<rparr>)\<rparr>
                      else s)] s3"
  have b2: "button_only s s2"
    by (simp add: s2_def button_only_def logs_none)
  have k2: "\<forall>c. beatjump_scalestep (channel s2 c) = beatjump_scalestep (channel s c)"
    "last_shift_button_pressed s2 = ch"
    by (simp_all add: s2_def)
  have "output_only s2 s3"
    by (simp add: s3_def output_only_refl output_only_update_fx_light)
  then have b23: "button_only s2 s3" and e23: "channel s3 = channel s2"
    "last_shift_button_pressed s3 = last_shift_button_pressed s2"
    by (simp_all add: output_only_button_only) (simp_all add: output_only_def)
  have b34: "button_only s3 s4"
    by (simp add: s4_def seq_simps button_only_def set_shift_double_def logs_none)
  have k34: "\<forall>c. beatjump_scalestep (channel s4 c) = beatjump_scalestep (channel s3 c)"
    "last_shift_button_pressed s4 = last_shift_button_pressed s3"
    by (simp_all add: s4_def seq_simps set_shift_double_def)
  have eq: "set_shift_button_pressed ch p now s =
      (if p then s4
       else if w \<and> get_shift_double s3 ch then toggle_deck_channel_gateway ch s3 else s3)"
    by (simp add: set_shift_button_pressed_def Let_def shift_double_press_def
        s2_def s3_def s4_def w_def)
  have b3: "button_only s s3" using b2 b23 by (rule button_only_trans)
  have b4: "button_only s s4" using b3 b34 by (rule button_only_trans)
  have k3: "\<forall>c. beatjump_scalestep (channel s3 c) = beatjump_scalestep (channel s c)"
    "last_shift_button_pressed s3 = ch"
    using k2 e23 by simp_all
  have k4: "\<forall>c. beatjump_scalestep (channel s4 c) = beatjump_scalestep (channel s c)"
    "last_shift_button_pressed s4 = ch"
    using k3 k34 by simp_all
  show ?thesis
  proof (cases p)
    case True
    then have "set_shift_button_pressed ch p now s = s4" using eq by simp
    then show ?thesis using b4 k4 by blast
  next
    case False
    then have "set_shift_button_pressed ch p now s = s3 \<or>
        set_shift_button_pressed ch p now s = toggle_deck_channel_gateway ch s3"
      using eq by simp
    then show ?thesis using b3 k3 by blast
  qed
qed

lemma handle_pad_cases:
  "handle_pad pc ctrl v s = s \<or>
   handle_pad pc ctrl v s = toggle_deck_channel_gateway (padchannel_to_channel pc) s \<or>
   (allow_beatjump_downscale s (padchannel_to_channel pc) \<and>
    handle_pad pc ctrl v s =
      seq [beatjump_scalestep_add (padchannel_to_channel pc) (- 1),
           update_beatjump_shift_lights (padchannel_to_channel pc)] s) \<or>
   (allow_beatjump_upscale s (padchannel_to_channel pc) \<and>
    handle_pad pc ctrl v s =
      seq [beatjump_scalestep_add (padchannel_to_channel pc) 1,
           update_beatjump_shift_lights (padchannel_to_channel pc)] s)"
  by (simp add: handle_pad_def handle_beatjump_def handle_beatjump_shift_def Let_def)

lemma button_only_scalestep:
  "button_only s (seq [beatjump_scalestep_add ch k, update_beatjump_shift_lights ch] s)"
proof -
  have "button_only s (beatjump_scalestep_add ch k s)"
    by (simp add: button_only_def beatjump_scalestep_add_def logs_none)
  moreover have "button_only (beatjump_scalestep_add ch k s)
      (update_beatjump_shift_lights ch (beatjump_scalestep_add ch k s))"
    by (rule output_only_button_only[OF output_only_update_beatjump_shift_lights])
  ultimately show ?thesis
    by (simp add: seq_simps button_only_trans)
qed

lemma padchannel_to_channel_less: "padchannel_to_channel pc < 2"
  by (simp add: padchannel_to_channel_def)

subsection \<open>The binding\<close>

lemma mapping_ok_toggle_deck_channel:
  assumes "mapping_ok s" and "ch < 2"
  shows "mapping_ok (toggle_deck_channel ch s)"
proof -
  have "ch = 0 \<or> ch = 1" using assms(2) by auto
  then show ?thesis
    using assms(1)
    by (auto simp: mapping_ok_def channel_mapping_toggle_deck_channel
        num_decks_toggle_deck_channel next_deck_def get_num_decks_def channel_to_deck_def)
qed

lemma mapping_ok_gateway:
  "mapping_ok s \<Longrightarrow> ch < 2 \<Longrightarrow> mapping_ok (toggle_deck_channel_gateway ch s)"
  by (simp add: toggle_deck_channel_gateway_def always_toggle_both_def
      mapping_ok_toggle_deck_channel)

lemma mapping_ok_cong:
  "channel_mapping s' = channel_mapping s \<Longrightarrow> num_decks s' = num_decks s \<Longrightarrow>
   mapping_ok s \<Longrightarrow> mapping_ok s'"
  by (simp add: mapping_ok_def)

lemma mapping_ok_connect_only: "connect_only s s' \<Longrightarrow> mapping_ok s \<Longrightarrow> mapping_ok s'"
  by (rule mapping_ok_cong) (simp_all add: connect_only_def rebind_only_def)

lemma mapping_ok_button_only: "button_only s s' \<Longrightarrow> mapping_ok s \<Longrightarrow> mapping_ok s'"
  by (rule mapping_ok_cong) (simp_all add: button_only_def)

lemma host_set_connect_only:
  "connect_only (s\<lparr>ctl := (ctl s)(g := (ctl s g)(k := v))\<rparr>) (host_set g k v s)"
  unfolding host_set_def Let_def
  by (rule connect_only_fold) (rule connect_only_observe)

lemma mapping_ok_step:
  assumes "mapping_ok s" and "event_ok e"
  shows "mapping_ok (step e s)"
proof (cases e)
  case (ShiftPressed ch v now)
  obtain s1 where s1: "button_only s s1"
    "shiftPressed ch v now s = s1 \<or> shiftPressed ch v now s = toggle_deck_channel_gateway ch s1"
    using set_shift_button_pressed_cases[of s ch "v = 0x7F" now]
    unfolding shiftPressed_def by blast
  have "mapping_ok s1" using s1(1) assms(1) by (rule mapping_ok_button_only)
  moreover have "ch < 2" using assms(2) ShiftPressed by simp
  ultimately show ?thesis
    using s1(2) ShiftPressed mapping_ok_gateway by auto
next
  case (LoopIn ch v)
  have "connect_only s (loop_in ch v s)"
    unfolding loop_in_def Let_def by (auto intro: connect_only_refl co)
  then show ?thesis using LoopIn assms(1) mapping_ok_connect_only by simp
next
  case (LoopOut ch v)
  have "connect_only s (loop_out ch v s)"
    unfolding loop_out_def Let_def by (auto intro: connect_only_refl co)
  then show ?thesis using LoopOut assms(1) mapping_ok_connect_only by simp
next
  case (HandlePad pc ctrl v)
  show ?thesis
    using handle_pad_cases[of pc ctrl v s] assms(1) HandlePad
      mapping_ok_gateway[OF assms(1) padchannel_to_channel_less]
      mapping_ok_button_only[OF button_only_scalestep]
    by auto
next
  case (HostSet g k v)
  have "mapping_ok (s\<lparr>ctl := (ctl s)(g := (ctl s g)(k := v))\<rparr>)"
    using assms(1) by (simp add: mapping_ok_def)
  then show ?thesis
    using HostSet mapping_ok_connect_only[OF host_set_connect_only] by simp
next
  case (TimerFired t)
  have "connect_only s (timer_fired t s)"
    by (intro loop_only_connect_only blink_only_loop_only blink_only_timer_fired)
  then show ?thesis using TimerFired assms(1) mapping_ok_connect_only by simp
qed

lemma mapping_ok_start: "mapping_ok (init (state0 c nd nu ns))"
proof -
  have "channel_mapping (init (state0 c nd nu ns)) = channel_mapping (state0 c nd nu ns)"
    using init_keeps_init[of "state0 c nd nu ns"] by (simp add: init_keeps_def)
  then have "channel_mapping (init (state0 c nd nu ns)) = [0, 1]"
    by (simp add: state0_def)
  then show ?thesis by (simp add: mapping_ok_def)
qed

lemma reachable_mapping_ok: "reachable s \<Longrightarrow> mapping_ok s"
  by (induction rule: reachable.induct) (simp_all add: mapping_ok_start mapping_ok_step)

text \<open>
  Claim C1: on a host with four decks, in every state that the script reaches from its
  start, where the binding is \<open>[0, 1]\<close>, the two channels are bound to different decks.
\<close>

theorem binding_exclusive:
  assumes "reachable s" and "num_decks s = 4"
  shows "channel_mapping s ! 0 \<noteq> channel_mapping s ! 1"
  using reachable_mapping_ok[OF assms(1)] assms(2)
  by (auto simp: mapping_ok_def)

theorem binding_exclusive_witness:
  "reachable (step (HandlePad 8 0x20 127) four_decks) \<and>
   num_decks (step (HandlePad 8 0x20 127) four_decks) = 4 \<and>
   channel_mapping (step (HandlePad 8 0x20 127) four_decks) ! 0 \<noteq>
   channel_mapping (step (HandlePad 8 0x20 127) four_decks) ! 1"
proof -
  have r: "reachable (step (HandlePad 8 0x20 127) four_decks)"
    unfolding four_decks_def by (rule reachable.event[OF reachable.start]) simp
  have "step (HandlePad 8 0x20 127) four_decks = toggle_deck_channel 0 four_decks"
    by (simp add: handle_pad_def handle_beatjump_def handle_beatjump_shift_def Let_def
        padchannel_to_channel_def padchannel_has_shift_def pad_modes_beat_jump_def
        toggle_deck_channel_gateway_def always_toggle_both_def)
  then have n: "num_decks (step (HandlePad 8 0x20 127) four_decks) = 4"
    by (simp add: num_decks_toggle_deck_channel four_decks_facts)
  show ?thesis
    using binding_exclusive[OF r n] r n by simp
qed

subsection \<open>The beatjump scale\<close>






text \<open>\<^verbatim>\<open>init\<close> in two halves: up to the assignment of the scale steps, and the rest.\<close>

lemma init_split:
  "init s =
     seq [update_beatjump_shift_lights 0,
          update_beatjump_shift_lights 1,
          set_backspin_length 0x20,
          update_brake_light,
          (\<lambda>s. update_head_split_light (getValue s Master ''headSplit'') s),
          (\<lambda>s. persistent_put Head_split (next_id s)
                  (makeConnection Master ''headSplit'' Update_head_split_light s)),
          set_current_loop_modifier 0 none,
          set_current_loop_modifier 1 none,
          (\<lambda>s. fold (\<lambda>unit.
                   let unit_group = get_effect_unit_group (Some unit) in
                   seq [softTakeover unit_group ''mix'',
                        (\<lambda>s. persistent_put (Effect_unit_focussed unit) (next_id s)
                                (makeConnection unit_group ''focused_effect'' Update_fx_light s)),
                        (\<lambda>s. fold (\<lambda>slot.
                                 let effect_group = get_effect_group (Some unit) (real slot) in
                                 seq [softTakeover effect_group ''meta'',
                                      (\<lambda>s. persistent_put (Effect_unit_slot_enabled unit slot)
                                              (next_id s)
                                              (makeConnection effect_group ''enabled''
                                                 Update_fx_light s))])
                               [1..<Suc (get_num_effect_slots s unit)] s)])
                 [1..<Suc (num_effectunits s)] s),
          fold (\<lambda>d.
                  let g = deck_to_group d;
                      eq_group = EqualizerRack1 g
                  in seq [print (Setting_up_soft_takeover eq_group),
                          softTakeover eq_group ''parameter1'',
                          softTakeover eq_group ''parameter2'',
                          softTakeover eq_group ''parameter3'',
                          softTakeover (QuickEffectRack1 g) ''super1'',
                          softTakeover g ''pregain'',
                          softTakeover g ''volume''])
               [0..<4],
          connect_channel 0,
          connect_channel 1]
       (seq [track_loaded_animation 1 (Number 0),
             track_loaded_animation 1 (Number 1),
             (\<lambda>s. fold (\<lambda>d s. s\<lparr>deck := (deck s)(d := (deck s d)
                   \<lparr>effect_unit := Some (default_effect_unit ! d)\<rparr>)\<rparr>) [0..<get_num_decks s] s),
             (\<lambda>s. s\<lparr>channel := (channel s)(0 := (channel s 0)\<lparr>beatjump_scalestep := Some 0\<rparr>)\<rparr>),
             (\<lambda>s. s\<lparr>channel := (channel s)(1 := (channel s 1)\<lparr>beatjump_scalestep := Some 0\<rparr>)\<rparr>)] s)"
  by (simp add: init_def seq_simps)

lemma keeps_scale_refl: "keeps_scale s s"
  by (simp add: keeps_scale_def)

lemma keeps_scale_trans: "keeps_scale a b \<Longrightarrow> keeps_scale b c \<Longrightarrow> keeps_scale a c"
  by (simp add: keeps_scale_def)

lemma keeps_scale_seq: "(\<And>f s. f \<in> set fs \<Longrightarrow> keeps_scale s (f s)) \<Longrightarrow> keeps_scale s (seq fs s)"
  by (rule seq_rel[where R = keeps_scale]) (auto intro: keeps_scale_refl keeps_scale_trans)

lemma keeps_scale_fold: "(\<And>x s. x \<in> set xs \<Longrightarrow> keeps_scale s (f x s)) \<Longrightarrow> keeps_scale s (fold f xs s)"
  by (rule fold_rel[where R = keeps_scale]) (auto intro: keeps_scale_refl keeps_scale_trans)

lemma rebind_only_keeps_scale: "rebind_only s s' \<Longrightarrow> keeps_scale s s'"
  by (simp add: rebind_only_def keeps_scale_def)

named_theorems ks
lemmas [ks] = ro[THEN rebind_only_keeps_scale]

lemma keeps_scale_persistent_put [ks]:
  "keeps_scale s (persistent_put k c (makeConnection g ctrl f s))"
  by (simp add: keeps_scale_def persistent_put_def makeConnection_def)










subsection \<open>The shift button\<close>

lemma fired_append: "fired (xs @ ys) = fired xs + fired ys"
  by (simp add: fired_def)

lemma toggle_msg_rebinds: "toggle_msg e \<Longrightarrow> rebinds e"
  by (cases e rule: toggle_msg.cases) simp_all

lemma fired_logs: "logs (\<lambda>e. \<not> rebinds e) s s' \<Longrightarrow> fired (calls s') = fired (calls s)"
  unfolding logs_def fired_def
  using toggle_msg_rebinds by (fastforce simp: list_all_iff filter_empty_conv)

lemma fired_connect_only: "connect_only s s' \<Longrightarrow> fired (calls s') = fired (calls s)"
  by (simp add: connect_only_def fired_logs)

lemma fired_output_only: "output_only s s' \<Longrightarrow> fired (calls s') = fired (calls s)"
  by (intro fired_connect_only loop_only_connect_only blink_only_loop_only output_only_blink_only)

lemma fired_toggle_deck_channel:
  "fired (calls (toggle_deck_channel ch s)) = fired (calls s) + 1"
proof (cases "channel_to_deck s ch = next_deck s ch (channel_to_deck s ch)")
  case True
  then show ?thesis
    by (simp add: toggle_deck_channel_def print_def fired_def)
next
  case False
  let ?p = "print (Toggling_deck (channel_to_deck s ch) (next_deck s ch (channel_to_deck s ch))) s"
  have "fired (calls ?p) = fired (calls s) + 1"
    by (simp add: print_def fired_def)
  moreover have "fired (calls (disconnect_channel ch ?p)) = fired (calls ?p)"
    by (rule fired_connect_only[OF connect_only_disconnect_channel])
  moreover have "fired (calls (set_channel_mapping ch d s')) = fired (calls s')" for d s'
    by (simp add: set_channel_mapping_def fired_def)
  moreover have "fired (calls (connect_channel ch s')) = fired (calls s')" for s'
    by (rule fired_connect_only[OF connect_only_connect_channel])
  ultimately show ?thesis
    using False by (simp add: toggle_deck_channel_def Let_def seq_simps)
qed

lemma fired_gateway:
  "fired (calls (toggle_deck_channel_gateway ch s)) = fired (calls s) + 1"
  by (simp add: toggle_deck_channel_gateway_def always_toggle_both_def fired_toggle_deck_channel)

lemma shift_fields_gateway:
  "shift_time (channel (toggle_deck_channel_gateway ch s) c) = shift_time (channel s c)"
  "shift_double (channel (toggle_deck_channel_gateway ch s) c) = shift_double (channel s c)"
  "shift_button_pressed (channel (toggle_deck_channel_gateway ch s) c) =
     shift_button_pressed (channel s c)"
  "last_shift_button_pressed (toggle_deck_channel_gateway ch s) = last_shift_button_pressed s"
  using rebind_only_toggle_deck_channel_gateway[of s ch]
  by (simp_all add: rebind_only_def)

text \<open>A press: the pending flag is set to whether the press is within the window of the
  reference time; otherwise the press is the new reference. Nothing fires.\<close>

lemma shift_press:
  fixes s ch now
  defines "s' \<equiv> set_shift_button_pressed ch True now s"
  defines "w \<equiv> now - get_last_shift_time s ch < times_double_press"
  shows "fired (calls s') = fired (calls s)"
    and "shift_double (channel s' ch) = Some w"
    and "shift_time (channel s' ch) = (if w then shift_time (channel s ch) else Some now)"
    and "shift_button_pressed (channel s' ch) = Some True"
    and "last_shift_button_pressed s' = ch"
    and "channel_mapping s' = channel_mapping s"
    and "deck s' = deck s"
    and "c \<noteq> ch \<Longrightarrow> channel s' c = channel s c"
proof -
  define s2 where "s2 = s\<lparr>channel := (channel s)(ch := (channel s ch)\<lparr>shift_button_pressed := Some True\<rparr>),
               last_shift_button_pressed := ch\<rparr>"
  define s3 where "s3 = (if last_shift_button_pressed s \<noteq> ch then update_fx_light s2 else s2)"
  have oo3: "output_only s2 s3"
    by (simp add: s3_def output_only_refl output_only_update_fx_light)
  then have e3: "channel s3 = channel s2" "last_shift_button_pressed s3 = ch"
    "channel_mapping s3 = channel_mapping s" "deck s3 = deck s"
    by (simp_all add: output_only_def s2_def)
  have f3: "fired (calls s3) = fired (calls s)"
    using fired_output_only[OF oo3] by (simp add: s2_def)
  have w3: "get_last_shift_time s3 ch = get_last_shift_time s ch"
    by (simp add: get_last_shift_time_def e3 s2_def)
  have eq: "s' =
      seq [set_shift_double ch w,
           (\<lambda>s. if \<not> w
                 then s\<lparr>channel := (channel s)(ch := (channel s ch)\<lparr>shift_time := Some now\<rparr>)\<rparr>
                 else s)] s3"
    by (simp add: s'_def set_shift_button_pressed_def Let_def s2_def s3_def w_def w3[unfolded s3_def s2_def])
  show "fired (calls s') = fired (calls s)"
    and "shift_double (channel s' ch) = Some w"
    and "shift_time (channel s' ch) = (if w then shift_time (channel s ch) else Some now)"
    and "shift_button_pressed (channel s' ch) = Some True"
    and "last_shift_button_pressed s' = ch"
    and "channel_mapping s' = channel_mapping s"
    and "deck s' = deck s"
    and "c \<noteq> ch \<Longrightarrow> channel s' c = channel s c"
    using f3 e3 by (simp_all add: eq seq_simps set_shift_double_def s2_def)
qed

text \<open>A release: the toggle fires when the release is within the window of the reference
  time and the pending flag is set. The reference time and the flag stay as they are.\<close>

lemma shift_release:
  fixes s ch now
  defines "s' \<equiv> set_shift_button_pressed ch False now s"
  defines "w \<equiv> now - get_last_shift_time s ch < times_double_press"
  shows "fired (calls s') = fired (calls s) + (if w \<and> get_shift_double s ch then 1 else 0)"
    and "shift_double (channel s' ch) = shift_double (channel s ch)"
    and "shift_time (channel s' ch) = shift_time (channel s ch)"
    and "shift_button_pressed (channel s' ch) = Some False"
    and "last_shift_button_pressed s' = ch"
    and "\<not> (w \<and> get_shift_double s ch) \<Longrightarrow> channel_mapping s' = channel_mapping s"
    and "\<forall>d. effect_unit (deck s' d) = effect_unit (deck s d)"
    and "c \<noteq> ch \<Longrightarrow> shift_button_pressed (channel s' c) = shift_button_pressed (channel s c)"
proof -
  define s2 where "s2 = s\<lparr>channel := (channel s)(ch := (channel s ch)\<lparr>shift_button_pressed := Some False\<rparr>),
               last_shift_button_pressed := ch\<rparr>"
  define s3 where "s3 = (if last_shift_button_pressed s \<noteq> ch then update_fx_light s2 else s2)"
  have oo3: "output_only s2 s3"
    by (simp add: s3_def output_only_refl output_only_update_fx_light)
  then have e3: "channel s3 = channel s2" "last_shift_button_pressed s3 = ch"
    "channel_mapping s3 = channel_mapping s" "deck s3 = deck s"
    by (simp_all add: output_only_def s2_def)
  have f3: "fired (calls s3) = fired (calls s)"
    using fired_output_only[OF oo3] by (simp add: s2_def)
  have w3: "get_last_shift_time s3 ch = get_last_shift_time s ch"
    "get_shift_double s3 ch = get_shift_double s ch"
    by (simp_all add: get_last_shift_time_def get_shift_double_def e3 s2_def)
  have eq: "s' = (if w \<and> get_shift_double s ch then toggle_deck_channel_gateway ch s3 else s3)"
    by (simp add: s'_def set_shift_button_pressed_def Let_def shift_double_press_def
        s2_def s3_def w_def w3[unfolded s3_def s2_def])
  have u: "\<forall>d. effect_unit (deck (toggle_deck_channel_gateway ch s3) d) = effect_unit (deck s3 d)"
    using rebind_only_toggle_deck_channel_gateway[of s3 ch] by (simp add: rebind_only_def)
  show "fired (calls s') = fired (calls s) + (if w \<and> get_shift_double s ch then 1 else 0)"
    and "shift_double (channel s' ch) = shift_double (channel s ch)"
    and "shift_time (channel s' ch) = shift_time (channel s ch)"
    and "shift_button_pressed (channel s' ch) = Some False"
    and "last_shift_button_pressed s' = ch"
    and "\<not> (w \<and> get_shift_double s ch) \<Longrightarrow> channel_mapping s' = channel_mapping s"
    and "\<forall>d. effect_unit (deck s' d) = effect_unit (deck s d)"
    and "c \<noteq> ch \<Longrightarrow> shift_button_pressed (channel s' c) = shift_button_pressed (channel s c)"
    using f3 e3 u by (auto simp: eq fired_gateway shift_fields_gateway s2_def)
qed

lemma press_simps:
  "fired (calls (shiftPressed ch 0x7F now s)) = fired (calls s)"
  "get_shift_double (shiftPressed ch 0x7F now s) ch =
     (now - get_last_shift_time s ch < times_double_press)"
  "get_last_shift_time (shiftPressed ch 0x7F now s) ch =
     (if now - get_last_shift_time s ch < times_double_press then get_last_shift_time s ch
      else now)"
  using shift_press(1,2,3)[of ch now s]
  by (simp_all add: shiftPressed_def get_shift_double_def get_last_shift_time_def)

lemma release_simps:
  "fired (calls (shiftPressed ch 0 now s)) =
     fired (calls s) +
     (if now - get_last_shift_time s ch < times_double_press \<and> get_shift_double s ch then 1 else 0)"
  "get_shift_double (shiftPressed ch 0 now s) ch = get_shift_double s ch"
  "get_last_shift_time (shiftPressed ch 0 now s) ch = get_last_shift_time s ch"
  "shift_time (channel (shiftPressed ch 0 now s) ch) = shift_time (channel s ch)"
  "shift_double (channel (shiftPressed ch 0 now s) ch) = shift_double (channel s ch)"
  "last_shift_button_pressed (shiftPressed ch 0 now s) = ch"
  using shift_release(1,2,3,5)[of ch now s]
  by (simp_all add: shiftPressed_def get_shift_double_def get_last_shift_time_def)

text \<open>
  Claim C5: the window is 290 ms. With the debouncer of a channel in its initial state and
  the clock (\<^verbatim>\<open>Date.now()\<close>, milliseconds since 1970) reading \<open>T\<close>, at least 290, at the
  first press: press at \<open>T\<close>, release at \<open>T + 100\<close>, press at \<open>T + 150\<close>, release at
  \<open>T + 200\<close> call the toggle exactly once, at the second release; and when the second press
  comes more than 290 ms after the first, no release of the two pairs calls it.
\<close>

theorem double_press_window:
  assumes "ch < 2" and "shift_time (channel s ch) = None"
    and "shift_double (channel s ch) = None" and "times_double_press \<le> T"
  shows "times_double_press = 290 \<and>
         fired (calls (shiftPressed ch 0x7F T s)) = fired (calls s) \<and>
         fired (calls (shiftPressed ch 0 (T + 100) (shiftPressed ch 0x7F T s))) = fired (calls s) \<and>
         fired (calls (shiftPressed ch 0x7F (T + 150)
           (shiftPressed ch 0 (T + 100) (shiftPressed ch 0x7F T s)))) = fired (calls s) \<and>
         fired (calls (shiftPressed ch 0 (T + 200) (shiftPressed ch 0x7F (T + 150)
           (shiftPressed ch 0 (T + 100) (shiftPressed ch 0x7F T s))))) = fired (calls s) + 1 \<and>
         (\<forall>R1 P2 R2. T + times_double_press < P2 \<longrightarrow>
            fired (calls (shiftPressed ch 0 R1 (shiftPressed ch 0x7F T s))) = fired (calls s) \<and>
            fired (calls (shiftPressed ch 0 R2 (shiftPressed ch 0x7F P2
              (shiftPressed ch 0 R1 (shiftPressed ch 0x7F T s))))) = fired (calls s))"
proof -
  have i: "get_last_shift_time s ch = 0" "get_shift_double s ch = False"
    using assms(2,3) by (simp_all add: get_last_shift_time_def get_shift_double_def)
  show ?thesis
    using assms(4) by (simp add: press_simps release_simps i times_double_press_def)
qed


lemma four_decks_shift:
  "shift_time (channel four_decks c) = None" "shift_double (channel four_decks c) = None"
  "shift_button_pressed (channel four_decks c) = None"
  "last_shift_button_pressed four_decks = 0"
  using init_keeps_init[of "state0 quiet 4 2 three_slots"]
  by (simp_all add: init_keeps_def four_decks_def state0_def)

theorem double_press_window_witness:
  "(0::nat) < 2 \<and> shift_time (channel four_decks 0) = None \<and>
   shift_double (channel four_decks 0) = None \<and> times_double_press \<le> 1000 \<and>
   fired (calls (shiftPressed 0 0 1100 (shiftPressed 0 0x7F 1000 four_decks))) =
     fired (calls four_decks) \<and>
   fired (calls (shiftPressed 0 0 1200 (shiftPressed 0 0x7F 1150
     (shiftPressed 0 0 1100 (shiftPressed 0 0x7F 1000 four_decks))))) =
     fired (calls four_decks) + 1 \<and>
   fired (calls (shiftPressed 0 0 1400 (shiftPressed 0 0x7F 1300
     (shiftPressed 0 0 1100 (shiftPressed 0 0x7F 1000 four_decks))))) = fired (calls four_decks)"
proof -
  have h: "(0::nat) < 2" "shift_time (channel four_decks 0) = None"
    "shift_double (channel four_decks 0) = None" "times_double_press \<le> 1000"
    by (simp_all add: four_decks_shift times_double_press_def)
  have "(1000::int) + times_double_press < 1300"
    by (simp add: times_double_press_def)
  then show ?thesis
    using double_press_window[OF h] h by simp
qed

lemma press_fields:
  "shift_time (channel (shiftPressed ch 0x7F now s) ch) =
     (if now - get_last_shift_time s ch < times_double_press then shift_time (channel s ch)
      else Some now)"
  "shift_double (channel (shiftPressed ch 0x7F now s) ch) =
     Some (now - get_last_shift_time s ch < times_double_press)"
  using shift_press(2,3)[of ch now s]
  by (simp_all add: shiftPressed_def)

text \<open>
  Claim C6, as the script has it: a release that fires the toggle leaves the channel's
  reference time and pending flag as they are. So a third press and its release, both less
  than 290 ms after the reference time, leave the reference time as it is and fire the
  toggle a second time. A third press 290 ms or more after the reference time becomes the
  new reference time and clears the pending flag: its release does not fire, and a fourth
  press and release less than 290 ms after the third press fire again.
\<close>

theorem double_press_not_reset:
  assumes "ch < 2" and "R - get_last_shift_time s ch < times_double_press"
    and "get_shift_double s ch"
  shows "fired (calls (shiftPressed ch 0 R s)) = fired (calls s) + 1 \<and>
         shift_time (channel (shiftPressed ch 0 R s) ch) = shift_time (channel s ch) \<and>
         shift_double (channel (shiftPressed ch 0 R s) ch) = shift_double (channel s ch) \<and>
         (\<forall>P3 R3. P3 - get_last_shift_time s ch < times_double_press \<and>
                  R3 - get_last_shift_time s ch < times_double_press \<longrightarrow>
            shift_time (channel (shiftPressed ch 0x7F P3 (shiftPressed ch 0 R s)) ch) =
              shift_time (channel s ch) \<and>
            shift_double (channel (shiftPressed ch 0x7F P3 (shiftPressed ch 0 R s)) ch) =
              Some True \<and>
            fired (calls (shiftPressed ch 0 R3 (shiftPressed ch 0x7F P3 (shiftPressed ch 0 R s)))) =
              fired (calls s) + 2) \<and>
         (\<forall>P3 R3. \<not> P3 - get_last_shift_time s ch < times_double_press \<longrightarrow>
            shift_time (channel (shiftPressed ch 0x7F P3 (shiftPressed ch 0 R s)) ch) = Some P3 \<and>
            get_last_shift_time (shiftPressed ch 0x7F P3 (shiftPressed ch 0 R s)) ch = P3 \<and>
            shift_double (channel (shiftPressed ch 0x7F P3 (shiftPressed ch 0 R s)) ch) =
              Some False \<and>
            fired (calls (shiftPressed ch 0 R3 (shiftPressed ch 0x7F P3 (shiftPressed ch 0 R s)))) =
              fired (calls s) + 1 \<and>
            (\<forall>P4 R4. P4 - P3 < times_double_press \<and> R4 - P3 < times_double_press \<longrightarrow>
               fired (calls (shiftPressed ch 0 R4 (shiftPressed ch 0x7F P4
                 (shiftPressed ch 0 R3 (shiftPressed ch 0x7F P3 (shiftPressed ch 0 R s)))))) =
                 fired (calls s) + 2))"
  using assms(2,3)
  by (simp add: press_simps release_simps press_fields)

theorem double_press_not_reset_witness:
  "(0::nat) < 2 \<and>
   1200 - get_last_shift_time (shiftPressed 0 0x7F 1150
     (shiftPressed 0 0 1100 (shiftPressed 0 0x7F 1000 four_decks))) 0 < times_double_press \<and>
   get_shift_double (shiftPressed 0 0x7F 1150
     (shiftPressed 0 0 1100 (shiftPressed 0 0x7F 1000 four_decks))) 0 \<and>
   fired (calls (shiftPressed 0 0 1250 (shiftPressed 0 0x7F 1220 (shiftPressed 0 0 1200
     (shiftPressed 0 0x7F 1150 (shiftPressed 0 0 1100 (shiftPressed 0 0x7F 1000 four_decks))))))) =
     fired (calls (shiftPressed 0 0x7F 1150
       (shiftPressed 0 0 1100 (shiftPressed 0 0x7F 1000 four_decks)))) + 2 \<and>
   \<not> 1300 - get_last_shift_time (shiftPressed 0 0x7F 1150
     (shiftPressed 0 0 1100 (shiftPressed 0 0x7F 1000 four_decks))) 0 < times_double_press \<and>
   shift_time (channel (shiftPressed 0 0x7F 1300 (shiftPressed 0 0 1200
     (shiftPressed 0 0x7F 1150 (shiftPressed 0 0 1100 (shiftPressed 0 0x7F 1000 four_decks))))) 0) =
     Some 1300 \<and>
   fired (calls (shiftPressed 0 0 1350 (shiftPressed 0 0x7F 1300 (shiftPressed 0 0 1200
     (shiftPressed 0 0x7F 1150 (shiftPressed 0 0 1100 (shiftPressed 0 0x7F 1000 four_decks))))))) =
     fired (calls (shiftPressed 0 0x7F 1150
       (shiftPressed 0 0 1100 (shiftPressed 0 0x7F 1000 four_decks)))) + 1"
proof -
  let ?s = "shiftPressed 0 0x7F 1150 (shiftPressed 0 0 1100 (shiftPressed 0 0x7F 1000 four_decks))"
  have i: "get_last_shift_time four_decks 0 = 0"
    by (simp add: get_last_shift_time_def four_decks_shift)
  have t: "get_last_shift_time ?s 0 = 1000" and d: "get_shift_double ?s 0"
    by (simp_all add: press_simps release_simps i times_double_press_def)
  have h: "(0::nat) < 2" "1200 - get_last_shift_time ?s 0 < times_double_press"
    by (simp_all add: t times_double_press_def)
  have a: "1220 - get_last_shift_time ?s 0 < times_double_press \<and>
        1250 - get_last_shift_time ?s 0 < times_double_press"
    by (simp add: t times_double_press_def)
  have b: "\<not> 1300 - get_last_shift_time ?s 0 < times_double_press"
    by (simp add: t times_double_press_def)
  note main = double_press_not_reset[OF h d]
  have 1: "fired (calls (shiftPressed 0 0 1250 (shiftPressed 0 0x7F 1220 (shiftPressed 0 0 1200 ?s)))) =
      fired (calls ?s) + 2"
    using main a by blast
  have 2: "shift_time (channel (shiftPressed 0 0x7F 1300 (shiftPressed 0 0 1200 ?s)) 0) = Some 1300"
    using main b by blast
  have 3: "fired (calls (shiftPressed 0 0 1350 (shiftPressed 0 0x7F 1300 (shiftPressed 0 0 1200 ?s)))) =
      fired (calls ?s) + 1"
    using main b by blast
  show ?thesis
    using h d 1 2 3 b by (intro conjI)
qed

text \<open>
  Press at 1000, release at 1100, press at 1150, release at 1200 (the double press fires),
  then a third press at 1220 and its release at 1250: the toggle has been called twice.
\<close>

theorem third_press_fires_again_counterexample:
  "fired (calls (shiftPressed 0 0 1200 (shiftPressed 0 0x7F 1150
     (shiftPressed 0 0 1100 (shiftPressed 0 0x7F 1000 four_decks))))) = fired (calls four_decks) + 1 \<and>
   fired (calls (shiftPressed 0 0 1250 (shiftPressed 0 0x7F 1220 (shiftPressed 0 0 1200
     (shiftPressed 0 0x7F 1150 (shiftPressed 0 0 1100 (shiftPressed 0 0x7F 1000 four_decks))))))) =
     fired (calls four_decks) + 2"
proof -
  have i: "get_last_shift_time four_decks 0 = 0" "get_shift_double four_decks 0 = False"
    by (simp_all add: get_last_shift_time_def get_shift_double_def four_decks_shift)
  show ?thesis
    by (simp add: press_simps release_simps i times_double_press_def)
qed

subsection \<open>The last shift button\<close>

lemma fold_effect_unit:
  "effect_unit (deck (fold (\<lambda>d s. s\<lparr>deck := (deck s)(d := (deck s d)\<lparr>effect_unit := Some (f d)\<rparr>)\<rparr>) xs s) d) =
     (if d \<in> set xs then Some (f d) else effect_unit (deck s d))"
  by (induction xs arbitrary: s) auto

lemma init_effect_unit:
  assumes "d < nd"
  shows "effect_unit (deck (init (state0 c nd nu ns)) d) = Some (default_effect_unit ! d)"
proof -
  let ?m = "seq [track_loaded_animation 1 (Number 0),
             track_loaded_animation 1 (Number 1),
             (\<lambda>s. fold (\<lambda>d s. s\<lparr>deck := (deck s)(d := (deck s d)
                   \<lparr>effect_unit := Some (default_effect_unit ! d)\<rparr>)\<rparr>) [0..<get_num_decks s] s),
             (\<lambda>s. s\<lparr>channel := (channel s)(0 := (channel s 0)\<lparr>beatjump_scalestep := Some 0\<rparr>)\<rparr>),
             (\<lambda>s. s\<lparr>channel := (channel s)(1 := (channel s 1)\<lparr>beatjump_scalestep := Some 0\<rparr>)\<rparr>)]
          (state0 c nd nu ns)"
  let ?a = "track_loaded_animation 1 (Number 1) (track_loaded_animation 1 (Number 0) (state0 c nd nu ns))"
  have "output_only (state0 c nd nu ns) ?a"
    by (rule output_only_trans[OF output_only_track_loaded_animation
          output_only_track_loaded_animation])
  then have "get_num_decks ?a = nd"
    by (simp add: output_only_def get_num_decks_def state0_def)
  then have "effect_unit (deck ?m d) = Some (default_effect_unit ! d)"
    using assms by (simp add: seq_simps fold_effect_unit)
  moreover have "keeps_scale ?m (init (state0 c nd nu ns))"
    unfolding init_split[of "state0 c nd nu ns"] Let_def
    by (rule keeps_scale_seq) (auto intro!: keeps_scale_seq keeps_scale_fold ks)
  ultimately show ?thesis
    by (simp add: keeps_scale_def)
qed

text \<open>
  Claim C10: every edge of a shift button, release included, makes its channel the last
  shift channel, so the effect deck is the deck of that channel afterwards. When a button
  is released (no double press pending) while the other channel's button, pressed last, is
  still held, the effect deck changes from the other channel's deck to this channel's.
\<close>

theorem last_shift_on_every_edge:
  "last_shift_button_pressed (shiftPressed ch v now s) = ch \<and>
   get_effect_deck (shiftPressed ch v now s) = channel_to_deck (shiftPressed ch v now s) ch \<and>
   (last_shift_button_pressed s = c \<and> c \<noteq> ch \<and> get_shift_button_pressed s c \<and>
    \<not> get_shift_double s ch \<longrightarrow>
      get_effect_deck s = channel_to_deck s c \<and>
      get_effect_deck (shiftPressed ch 0 now s) = channel_to_deck s ch \<and>
      get_shift_button_pressed (shiftPressed ch 0 now s) c \<and>
      (\<forall>d. get_deck_effect_unit (shiftPressed ch 0 now s) d = get_deck_effect_unit s d))"
proof -
  have l: "last_shift_button_pressed (shiftPressed ch v now s) = ch"
    using shift_press(5)[of ch now s] shift_release(5)[of ch now s]
    by (cases "v = 0x7F") (simp_all add: shiftPressed_def)
  have g: "get_effect_deck (shiftPressed ch v now s) = channel_to_deck (shiftPressed ch v now s) ch"
    by (simp add: get_effect_deck_def get_last_shift_channel_def l)
  have r: "get_effect_deck s = channel_to_deck s c \<and>
      get_effect_deck (shiftPressed ch 0 now s) = channel_to_deck s ch \<and>
      get_shift_button_pressed (shiftPressed ch 0 now s) c \<and>
      (\<forall>d. get_deck_effect_unit (shiftPressed ch 0 now s) d = get_deck_effect_unit s d)"
    if h: "last_shift_button_pressed s = c" "c \<noteq> ch" "get_shift_button_pressed s c"
      "\<not> get_shift_double s ch"
  proof -
    have m: "channel_mapping (shiftPressed ch 0 now s) = channel_mapping s"
      using h(4) shift_release(6)[of now s ch] by (simp add: shiftPressed_def)
    have "get_effect_deck s = channel_to_deck s c"
      by (simp add: get_effect_deck_def get_last_shift_channel_def h(1))
    moreover have "get_effect_deck (shiftPressed ch 0 now s) = channel_to_deck s ch"
      by (simp add: get_effect_deck_def get_last_shift_channel_def release_simps(6)
          channel_to_deck_def m)
    moreover have "get_shift_button_pressed (shiftPressed ch 0 now s) c"
      using h(2,3) shift_release(8)[of c ch now s]
      by (simp add: shiftPressed_def get_shift_button_pressed_def)
    moreover have "\<forall>d. get_deck_effect_unit (shiftPressed ch 0 now s) d = get_deck_effect_unit s d"
      using shift_release(7)[of ch now s] by (simp add: shiftPressed_def get_deck_effect_unit_def)
    ultimately show ?thesis by blast
  qed
  show ?thesis
    using l g r by blast
qed


lemma both_shifts_held_facts:
  "last_shift_button_pressed both_shifts_held = 1"
  "get_shift_button_pressed both_shifts_held 1"
  "\<not> get_shift_double both_shifts_held 0"
  "channel_mapping both_shifts_held = [2, 1]"
  "get_deck_effect_unit both_shifts_held 1 = Some 1"
  "get_deck_effect_unit both_shifts_held 2 = Some 2"
proof -
  let ?t = "toggle_deck_channel 0 four_decks"
  let ?p = "shiftPressed 0 0x7F 1000 ?t"
  have r: "rebind_only four_decks ?t" by (rule rebind_only_toggle_deck_channel)
  have m: "channel_mapping ?t = [2, 1]"
    by (simp add: channel_mapping_toggle_deck_channel channel_to_deck_def next_deck_def
        get_num_decks_def four_decks_facts)
  have st: "shift_time (channel ?t 0) = None"
    using r by (simp add: rebind_only_def four_decks_shift)
  have u: "effect_unit (deck ?t d) = Some (default_effect_unit ! d)" if "d < 4" for d
    using r init_effect_unit[OF that, of quiet 2 three_slots]
    by (simp add: rebind_only_def four_decks_def)
  have p: "shift_double (channel ?p 0) = Some False" "channel_mapping ?p = [2, 1]"
    "deck ?p = deck ?t"
    using shift_press(2,6,7)[of 0 1000 ?t] st m
    by (simp_all add: shiftPressed_def get_last_shift_time_def times_double_press_def)
  have q: "last_shift_button_pressed both_shifts_held = 1"
    "shift_button_pressed (channel both_shifts_held 1) = Some True"
    "channel both_shifts_held 0 = channel ?p 0"
    "channel_mapping both_shifts_held = [2, 1]" "deck both_shifts_held = deck ?t"
    using shift_press(4,5,6,7)[of 1 2000 ?p] shift_press(8)[of 0 1 2000 ?p] p
    by (simp_all add: both_shifts_held_def shiftPressed_def)
  show "last_shift_button_pressed both_shifts_held = 1"
    "get_shift_button_pressed both_shifts_held 1"
    "\<not> get_shift_double both_shifts_held 0"
    "channel_mapping both_shifts_held = [2, 1]"
    "get_deck_effect_unit both_shifts_held 1 = Some 1"
    "get_deck_effect_unit both_shifts_held 2 = Some 2"
    using q p u[of 1] u[of 2]
    by (simp_all add: get_shift_button_pressed_def get_shift_double_def get_deck_effect_unit_def
        default_effect_unit_def)
qed

theorem last_shift_on_every_edge_witness:
  "last_shift_button_pressed both_shifts_held = 1 \<and> (1::nat) \<noteq> 0 \<and>
   get_shift_button_pressed both_shifts_held 1 \<and> \<not> get_shift_double both_shifts_held 0 \<and>
   last_shift_button_pressed (shiftPressed 0 0 3000 both_shifts_held) = 0 \<and>
   get_shift_button_pressed (shiftPressed 0 0 3000 both_shifts_held) 1 \<and>
   get_deck_effect_unit both_shifts_held (get_effect_deck both_shifts_held) = Some 1 \<and>
   get_deck_effect_unit (shiftPressed 0 0 3000 both_shifts_held)
     (get_effect_deck (shiftPressed 0 0 3000 both_shifts_held)) = Some 2"
proof -
  let ?s' = "shiftPressed 0 0 3000 both_shifts_held"
  note f = both_shifts_held_facts
  have h: "last_shift_button_pressed both_shifts_held = 1 \<and> (1::nat) \<noteq> 0 \<and>
      get_shift_button_pressed both_shifts_held 1 \<and> \<not> get_shift_double both_shifts_held 0"
    using f(1,2,3) by simp
  from last_shift_on_every_edge[of 0 0 3000 both_shifts_held 1] h
  have a: "last_shift_button_pressed ?s' = 0"
    and b: "get_effect_deck both_shifts_held = channel_to_deck both_shifts_held 1"
    and c: "get_effect_deck ?s' = channel_to_deck both_shifts_held 0"
    and d: "get_shift_button_pressed ?s' 1"
    and e: "\<forall>d. get_deck_effect_unit ?s' d = get_deck_effect_unit both_shifts_held d"
    by blast+
  have "get_deck_effect_unit both_shifts_held (get_effect_deck both_shifts_held) = Some 1"
    using f(4,5) by (simp add: b channel_to_deck_def)
  moreover have "get_deck_effect_unit ?s' (get_effect_deck ?s') = Some 2"
    using f(4,6) e by (simp add: c channel_to_deck_def)
  ultimately show ?thesis
    using h a d by blast
qed

subsection \<open>The log of timer calls\<close>

lemma blink_log_append:
  "blink_log A (xs @ ys) = (case blink_log A xs of None \<Rightarrow> None | Some B \<Rightarrow> blink_log B ys)"
  by (induction A xs rule: blink_log.induct) simp_all

lemma blink_log_other: "list_all (\<lambda>e. \<not> timerish e) C \<Longrightarrow> blink_log A C = Some A"
proof (induction C)
  case Nil
  then show ?case by simp
next
  case (Cons e C)
  then show ?case by (cases e) simp_all
qed

lemma plain_not_timerish: "plain e \<Longrightarrow> \<not> timerish e"
  by (cases e) simp_all

lemma blink_log_stops:
  "blink_log A (map StopTimer ts) = Some (filter (\<lambda>x. fst x \<notin> set ts) A)"
proof (induction ts arbitrary: A)
  case Nil
  then show ?case by simp
next
  case (Cons t ts)
  have "filter (\<lambda>x. fst x \<notin> set ts) (filter (\<lambda>x. fst x \<noteq> t) A) =
        filter (\<lambda>x. fst x \<notin> set (t # ts)) A"
    by (induction A) auto
  then show ?case using Cons by simp
qed

lemma blink_log_fold:
  "blink_log A es = Some B \<Longrightarrow>
   fold (\<lambda>e A. case e of
                 BeginTimer i p c b \<Rightarrow> A @ [(i, c)]
               | StopTimer i \<Rightarrow> filter (\<lambda>x. fst x \<noteq> i) A
               | _ \<Rightarrow> A) es A = B"
  by (induction A es rule: blink_log.induct) (simp_all split: if_splits)

lemma blink_log_take:
  "blink_log A es = Some B \<Longrightarrow> \<exists>B'. blink_log A (take n es) = Some B'"
proof -
  assume a: "blink_log A es = Some B"
  have "blink_log A (take n es @ drop n es) = Some B" using a by simp
  then show ?thesis
    unfolding blink_log_append by (cases "blink_log A (take n es)") simp_all
qed

lemma blink_log_single:
  "blink_log A es = Some B \<Longrightarrow> \<forall>c. length (filter (\<lambda>x. snd x = c) A) \<le> 1 \<Longrightarrow>
   \<forall>c. length (filter (\<lambda>x. snd x = c) B) \<le> 1"
proof (induction A es rule: blink_log.induct)
  case (2 A i p c b es)
  have n: "c \<notin> snd ` set A" using 2(2) by (simp split: if_splits)
  then have "filter (\<lambda>x. snd x = c) A = []"
    by (auto simp: filter_empty_conv)
  then have "\<forall>c'. length (filter (\<lambda>x. snd x = c') (A @ [(i, c)])) \<le> 1"
    using 2(3) by auto
  then show ?case using 2 n by simp
next
  case (3 A i es)
  have "length (filter (\<lambda>x. snd x = c) (filter (\<lambda>x. fst x \<noteq> i) A)) \<le>
        length (filter (\<lambda>x. snd x = c) A)" for c
    by (induction A) auto
  then have "\<forall>c. length (filter (\<lambda>x. snd x = c) (filter (\<lambda>x. fst x \<noteq> i) A)) \<le> 1"
    using 3(3) le_trans by blast
  then show ?case using 3 by simp
qed simp_all

lemma blink_log_begin_free:
  assumes "blink_log [] es = Some B" and "n < length es" and "es ! n = BeginTimer i p c b"
  shows "c \<notin> snd ` set (active_timers (take n es))"
proof -
  have es: "es = take n es @ BeginTimer i p c b # drop (Suc n) es"
    using assms(2,3) by (metis id_take_nth_drop)
  obtain A where A: "blink_log [] (take n es) = Some A"
    using blink_log_take[OF assms(1)] by blast
  have "blink_log [] (take n es @ BeginTimer i p c b # drop (Suc n) es) = Some B"
    using assms(1) es by simp
  then have "blink_log A (BeginTimer i p c b # drop (Suc n) es) = Some B"
    by (simp add: blink_log_append A)
  then have "c \<notin> snd ` set A" by (simp split: if_splits)
  moreover have "active_timers (take n es) = A"
    unfolding active_timers_def by (rule blink_log_fold[OF A])
  ultimately show ?thesis by simp
qed

subsection \<open>Timers and ids: the invariant\<close>

text \<open>A change that touches no timer and creates no id keeps the invariant.\<close>

lemma state_ok_frame:
  assumes "state_ok s"
    and "timers s' = timers s" and "host_timers s' = host_timers s"
    and "connections s' = connections s" and "host_conns s' = host_conns s"
    and "next_id s' = next_id s"
    and "calls s' = calls s @ C" and "list_all (\<lambda>e. \<not> timerish e \<and> creates e = None) C"
  shows "state_ok s'"
proof -
  have "list_all (\<lambda>e. \<not> timerish e) C"
    using assms(8) by (simp add: list_all_iff)
  then have "blink_log [] (calls s') = blink_log [] (calls s)"
    using assms(1) by (simp add: assms(7) blink_log_append blink_log_other state_ok_def timers_ok_def)
  moreover have "\<forall>e\<in>set C. \<forall>i. creates e \<noteq> Some i"
    using assms(8) by (simp add: list_all_iff)
  ultimately show ?thesis
    using assms(1-7) unfolding state_ok_def ids_ok_def timers_ok_def by auto
qed

lemma state_ok_output_only: "output_only s s' \<Longrightarrow> state_ok s \<Longrightarrow> state_ok s'"
proof -
  assume o: "output_only s s'" and ok: "state_ok s"
  obtain C where C: "calls s' = calls s @ C" "list_all plain C"
    using o unfolding output_only_def logs_def by blast
  have "list_all (\<lambda>e. \<not> timerish e \<and> creates e = None) C"
    using C(2) by (auto simp: list_all_iff plain_not_timerish plain_creates)
  then show "state_ok s'"
    using state_ok_frame[OF ok _ _ _ _ _ C(1)] o by (simp add: output_only_def)
qed

lemma state_ok_button_only: "button_only s s' \<Longrightarrow> state_ok s \<Longrightarrow> state_ok s'"
proof -
  assume o: "button_only s s'" and ok: "state_ok s"
  obtain C where C: "calls s' = calls s @ C" "list_all plain C"
    using o unfolding button_only_def logs_def by blast
  have "list_all (\<lambda>e. \<not> timerish e \<and> creates e = None) C"
    using C(2) by (auto simp: list_all_iff plain_not_timerish plain_creates)
  then show "state_ok s'"
    using state_ok_frame[OF ok _ _ _ _ _ C(1)] o by (simp add: button_only_def)
qed

lemma no_timer_output_only: "output_only s s' \<Longrightarrow> no_timer ch s \<Longrightarrow> no_timer ch s'"
  by (simp add: output_only_def no_timer_def)

lemma state_ok_one:
  assumes "state_ok s" and "\<not> timerish e" and "creates e = None"
  shows "state_ok (s\<lparr>calls := calls s @ [e]\<rparr>)"
  by (rule state_ok_frame[OF assms(1), where C = "[e]"]) (simp_all add: assms)

lemma ids_bound:
  "\<forall>c. \<forall>i\<in>snd ` set (T c). i < n \<Longrightarrow> (a, b) \<in> set (T c) \<Longrightarrow> b < n"
  by force

lemma set_delete_mem: "(a, b) \<in> set (AList.delete k T) \<Longrightarrow> (a, b) \<in> set T"
  by (auto simp: AList.delete_eq)

lemma set_update_mem: "(a, b) \<in> set (AList.update k v T) \<Longrightarrow> b = v \<or> (a, b) \<in> set T"
  by (induction T) (auto split: if_splits)

lemma state_ok_stopTimer: "state_ok s \<Longrightarrow> state_ok (stopTimer t s)"
proof -
  assume ok: "state_ok s"
  let ?A = "map (\<lambda>x. (tm_id x, tm_channel x)) (host_timers s)"
  have "filter (\<lambda>x. fst x \<noteq> t) ?A =
        map (\<lambda>x. (tm_id x, tm_channel x)) (filter (\<lambda>x. tm_id x \<noteq> t) (host_timers s))"
    by (induction "host_timers s") (auto simp: filter_map comp_def)
  then have "blink_log [] (calls s @ [StopTimer t]) =
      Some (map (\<lambda>x. (tm_id x, tm_channel x)) (filter (\<lambda>x. tm_id x \<noteq> t) (host_timers s)))"
    using ok by (simp add: blink_log_append state_ok_def timers_ok_def)
  then show ?thesis
    using ok unfolding state_ok_def ids_ok_def timers_ok_def stopTimer_def
    by (auto simp: distinct_map_filter)
qed

lemma state_ok_stop_blink:
  assumes "state_ok s"
  shows "state_ok (stop_blink ch s)" and "no_timer ch (stop_blink ch s)"
proof -
  have "state_ok (stop_blink ch s) \<and> no_timer ch (stop_blink ch s)"
  proof (cases "map_of (timers s ch) timer_id")
    case None
    then have "no_timer ch s"
      using assms unfolding state_ok_def timers_ok_def no_timer_def by auto
    then show ?thesis using None assms by (simp add: stop_blink_def)
  next
    case (Some t)
    let ?s1 = "stopTimer t s"
    let ?s2 = "?s1\<lparr>timers := (timers ?s1)(ch := AList.delete timer_id (timers ?s1 ch))\<rparr>"
    have ok1: "state_ok ?s1" using assms by (rule state_ok_stopTimer)
    have nt: "no_timer ch ?s1"
      using assms Some unfolding state_ok_def timers_ok_def no_timer_def stopTimer_def
      by auto
    have "state_ok ?s2"
      using ok1 nt unfolding state_ok_def timers_ok_def ids_ok_def no_timer_def
      by (auto dest!: set_delete_mem)
    moreover have "no_timer ch ?s2" using nt by (simp add: no_timer_def)
    ultimately show ?thesis using Some by (simp add: stop_blink_def seq_simps)
  qed
  then show "state_ok (stop_blink ch s)" and "no_timer ch (stop_blink ch s)" by simp_all
qed

lemma state_ok_begin_blink:
  assumes "state_ok s" and "no_timer ch s"
  shows "state_ok (begin_blink ch p b s)"
proof -
  let ?A = "map (\<lambda>x. (tm_id x, tm_channel x)) (host_timers s)"
  have free: "ch \<notin> snd ` set ?A"
    using assms(2) by (auto simp: no_timer_def)
  have "blink_log [] (calls s @ [BeginTimer (next_id s) p ch b]) = Some (?A @ [(next_id s, ch)])"
    using assms(1) free by (simp add: blink_log_append state_ok_def timers_ok_def)
  moreover have "next_id s \<notin> tm_id ` set (host_timers s)"
    using assms(1) unfolding state_ok_def ids_ok_def by auto
  ultimately show ?thesis
    using assms unfolding state_ok_def ids_ok_def timers_ok_def no_timer_def begin_blink_def
      beginTimer_def Let_def
    by (auto simp: update_conv' less_Suc_eq dest!: set_update_mem)
qed

lemma state_ok_set_current_loop_modifier:
  "state_ok s \<Longrightarrow> state_ok (set_current_loop_modifier ch m s)"
  by (rule state_ok_frame[where C = "[]"]) (simp_all add: set_current_loop_modifier_def)

lemma state_ok_lights:
  assumes "state_ok s" and "\<And>f s. f \<in> set fs \<Longrightarrow> output_only s (f s)"
  shows "state_ok (seq fs s)"
  using assms(1) output_only_seq[of fs s] assms(2) state_ok_output_only by blast

lemma no_timer_lights:
  assumes "no_timer ch s" and "\<And>f s. f \<in> set fs \<Longrightarrow> output_only s (f s)"
  shows "no_timer ch (seq fs s)"
  using assms(1) output_only_seq[of fs s] assms(2) no_timer_output_only by blast

lemma seq_append: "seq (fs @ gs) s = seq gs (seq fs s)"
  by (simp add: seq_def)

lemma state_ok_update_loop_inout_lights:
  assumes "state_ok s"
  shows "state_ok (update_loop_inout_lights ch s)"
proof -
  note ok1 = state_ok_stop_blink[OF assms, of ch]
  have off: "state_ok (seq [stop_blink ch,
             update_light ch lights_loop_in True,
             update_light ch lights_loop_out True,
             update_light ch lights_shift_loop_in True,
             update_light ch lights_shift_loop_out True,
             set_current_loop_modifier ch none] s)"
  proof -
    have "state_ok (seq [update_light ch lights_loop_in True,
             update_light ch lights_loop_out True,
             update_light ch lights_shift_loop_in True,
             update_light ch lights_shift_loop_out True] (stop_blink ch s))"
      by (rule state_ok_lights[OF ok1(1)]) (auto intro: oo)
    then show ?thesis
      by (simp add: seq_simps state_ok_set_current_loop_modifier)
  qed
  have first: "state_ok (seq ([stop_blink ch, begin_blink ch p b] @ ls @ [set_current_loop_modifier ch m]) s)"
    if "\<And>f s. f \<in> set ls \<Longrightarrow> output_only s (f s)" for p b ls m
  proof -
    have "state_ok (begin_blink ch p b (stop_blink ch s))"
      using ok1 by (rule state_ok_begin_blink)
    then have "state_ok (seq ls (begin_blink ch p b (stop_blink ch s)))"
      using that by (rule state_ok_lights)
    then show ?thesis
      by (simp add: seq_append seq_simps state_ok_set_current_loop_modifier)
  qed
  have last: "state_ok (seq ([stop_blink ch] @ ls @ [begin_blink ch p b, set_current_loop_modifier ch m]) s)"
    if "\<And>f s. f \<in> set ls \<Longrightarrow> output_only s (f s)" for p b ls m
  proof -
    have "state_ok (seq ls (stop_blink ch s))" "no_timer ch (seq ls (stop_blink ch s))"
      using ok1 that by (auto intro: state_ok_lights no_timer_lights)
    then have "state_ok (begin_blink ch p b (seq ls (stop_blink ch s)))"
      by (rule state_ok_begin_blink)
    then show ?thesis
      by (simp add: seq_append seq_simps state_ok_set_current_loop_modifier)
  qed
  have n: "state_ok (seq [stop_blink ch,
                      begin_blink ch times_loop_active Blink_both,
                      update_light ch lights_loop_in False,
                      update_light ch lights_loop_out False,
                      update_light ch lights_shift_loop_in False,
                      update_light ch lights_shift_loop_out False,
                      set_current_loop_modifier ch none] s)"
    using first[of "[update_light ch lights_loop_in False,
                      update_light ch lights_loop_out False,
                      update_light ch lights_shift_loop_in False,
                      update_light ch lights_shift_loop_out False]" times_loop_active Blink_both none]
    by (auto intro: oo)
  have i: "state_ok (seq [stop_blink ch,
                      begin_blink ch times_loop_adjust Blink_in,
                      update_light ch lights_loop_out False,
                      update_light ch lights_shift_loop_out False,
                      set_current_loop_modifier ch adjust_in] s)"
    using first[of "[update_light ch lights_loop_out False,
                      update_light ch lights_shift_loop_out False]" times_loop_adjust Blink_in adjust_in]
    by (auto intro: oo)
  have o: "state_ok (seq [stop_blink ch,
                      update_light ch lights_loop_in False,
                      update_light ch lights_shift_loop_in False,
                      begin_blink ch times_loop_adjust Blink_out,
                      set_current_loop_modifier ch adjust_out] s)"
    using last[of "[update_light ch lights_loop_in False,
                      update_light ch lights_shift_loop_in False]" times_loop_adjust Blink_out adjust_out]
    by (auto intro: oo)
  show ?thesis
    unfolding update_loop_inout_lights_def Let_def
    using assms off n i o by (simp split: loop_modifier.splits)
qed

lemma state_ok_set_loop_adjust_state: "state_ok s \<Longrightarrow> state_ok (set_loop_adjust_state d m s)"
proof -
  assume ok: "state_ok s"
  have "state_ok (s\<lparr>deck := (deck s)(d := (deck s d)\<lparr>loop_adjust := Some m\<rparr>)\<rparr>)"
    by (rule state_ok_frame[OF ok, where C = "[]"]) simp_all
  then show ?thesis
    by (simp add: set_loop_adjust_state_def Let_def state_ok_update_loop_inout_lights)
qed

lemma state_ok_set_loop_enabled: "state_ok s \<Longrightarrow> state_ok (set_loop_enabled v g s)"
  by (simp add: set_loop_enabled_def Let_def state_ok_set_loop_adjust_state
      state_ok_output_only[OF output_only_set_reloop_light])

lemma state_ok_run_callback: "state_ok s \<Longrightarrow> state_ok (run_callback f v g s)"
  unfolding run_callback_def
  by (cases f) (simp_all add: state_ok_set_loop_enabled state_ok_output_only[OF oo(1)]
      state_ok_output_only[OF output_only_play_indicator]
      state_ok_output_only[OF output_only_cue_indicator]
      state_ok_output_only[OF output_only_vu_meter_update]
      state_ok_output_only[OF output_only_track_loaded_animation]
      state_ok_output_only[OF output_only_beatsync_update]
      state_ok_output_only[OF output_only_beatmaster_update]
      state_ok_output_only[OF output_only_headphone_cue_update]
      state_ok_output_only[OF output_only_quantize_update]
      state_ok_output_only[OF output_only_keylock_update]
      state_ok_output_only[OF output_only_update_beatloop]
      state_ok_output_only[OF output_only_update_hotcue]
      state_ok_output_only[OF output_only_update_sampler]
      state_ok_output_only[OF output_only_update_fx_light]
      state_ok_output_only[OF output_only_update_head_split_light])

lemma state_ok_observe: "state_ok s \<Longrightarrow> state_ok (observe f v g s)"
  by (simp add: observe_def state_ok_run_callback state_ok_one)

lemma state_ok_trigger: "state_ok s \<Longrightarrow> state_ok (trigger c s)"
  by (simp add: trigger_def Let_def state_ok_observe state_ok_one split: option.splits)

lemma state_ok_connections_trigger: "state_ok s \<Longrightarrow> state_ok (connections_trigger ch k s)"
  by (simp add: connections_trigger_def state_ok_trigger split: option.splits)

lemma state_ok_timer_fired: "state_ok s \<Longrightarrow> state_ok (timer_fired t s)"
proof (cases "find (\<lambda>x. tm_id x = t) (host_timers s)")
  case None
  then show "state_ok s \<Longrightarrow> ?thesis" by (simp add: timer_fired_def)
next
  case (Some x)
  assume ok: "state_ok s"
  let ?f = "\<lambda>y. if tm_id y = t then y\<lparr>tm_blink_state := \<not> tm_blink_state x\<rparr> else y"
  let ?s' = "s\<lparr>host_timers := map ?f (host_timers s)\<rparr>"
  have m: "map tm_id (map ?f (host_timers s)) = map tm_id (host_timers s)"
    "map (\<lambda>x. (tm_id x, tm_channel x)) (map ?f (host_timers s)) =
     map (\<lambda>x. (tm_id x, tm_channel x)) (host_timers s)"
    by (induction "host_timers s") auto
  have "state_ok ?s'"
    using ok m unfolding state_ok_def ids_ok_def timers_ok_def
    by (auto simp del: map_map)
  then have "state_ok (seq (map (\<lambda>m. update_light (tm_channel x) m (\<not> tm_blink_state x))
      (blink_lights (tm_blink x))) ?s')"
    by (rule state_ok_lights) (auto intro: oo)
  then show ?thesis using Some by (simp add: timer_fired_def Let_def)
qed

lemma state_ok_print: "state_ok s \<Longrightarrow> state_ok (print m s)"
  unfolding print_def by (rule state_ok_one) simp_all

lemma state_ok_makeConnection: "state_ok s \<Longrightarrow> state_ok (makeConnection g k f s)"
proof -
  assume ok: "state_ok s"
  have "blink_log [] (calls s @ [MakeConnection (next_id s) g k f]) = blink_log [] (calls s)"
    using ok by (simp add: blink_log_append state_ok_def timers_ok_def)
  then show ?thesis
    using ok unfolding state_ok_def ids_ok_def timers_ok_def makeConnection_def
    by (auto simp: less_Suc_eq)
qed

lemma state_ok_make_put:
  "state_ok s \<Longrightarrow> state_ok (connections_put ch k (next_id s) (makeConnection g ctrl f s))"
proof -
  assume "state_ok s"
  then have "state_ok (makeConnection g ctrl f s)" by (rule state_ok_makeConnection)
  moreover have "next_id s < next_id (makeConnection g ctrl f s)"
    by (simp add: makeConnection_def)
  ultimately show ?thesis
    unfolding state_ok_def ids_ok_def timers_ok_def connections_put_def
    by (auto dest!: set_update_mem)
qed

lemma state_ok_make_persistent:
  "state_ok s \<Longrightarrow> state_ok (persistent_put k c (makeConnection g ctrl f s))"
proof -
  assume "state_ok s"
  then have "state_ok (makeConnection g ctrl f s)" by (rule state_ok_makeConnection)
  then show ?thesis
    by (rule state_ok_frame[where C = "[]"]) (simp_all add: persistent_put_def)
qed

lemma state_ok_conn_disconnect: "state_ok s \<Longrightarrow> state_ok (conn_disconnect c s)"
proof -
  assume ok: "state_ok s"
  have "blink_log [] (calls s @ [Disconnect c]) = blink_log [] (calls s)"
    using ok by (simp add: blink_log_append state_ok_def timers_ok_def)
  then show ?thesis
    using ok unfolding state_ok_def ids_ok_def timers_ok_def conn_disconnect_def
    by auto
qed

lemma state_ok_connect_samplers: "state_ok s \<Longrightarrow> state_ok (connect_samplers ch s)"
  unfolding connect_samplers_def Let_def
  by (rule fold_inv) (auto simp: seq_simps state_ok_make_put state_ok_connections_trigger)

lemma state_ok_connect_channel: "state_ok s \<Longrightarrow> state_ok (connect_channel ch s)"
  unfolding connect_channel_def Let_def
  apply (rule seq_inv, assumption)
  apply (auto simp: state_ok_print state_ok_connect_samplers
      state_ok_output_only[OF output_only_update_deck_channel_indicator]
      state_ok_output_only[OF output_only_update_fx_light])
  apply (rule fold_inv, assumption)
  apply (auto simp: seq_simps state_ok_make_put state_ok_connections_trigger)
  done

lemma fold_stopTimer:
  "host_timers (fold (\<lambda>(k, t). stopTimer t) T s) =
     filter (\<lambda>x. tm_id x \<notin> snd ` set T) (host_timers s)"
  "timers (fold (\<lambda>(k, t). stopTimer t) T s) = timers s"
  "channel_mapping (fold (\<lambda>(k, t). stopTimer t) T s) = channel_mapping s"
  "connections (fold (\<lambda>(k, t). stopTimer t) T s) = connections s"
  "host_conns (fold (\<lambda>(k, t). stopTimer t) T s) = host_conns s"
  "next_id (fold (\<lambda>(k, t). stopTimer t) T s) = next_id s"
  "calls (fold (\<lambda>(k, t). stopTimer t) T s) = calls s @ map StopTimer (map snd T)"
proof (induction T arbitrary: s)
  case Nil
  {
    case 1 then show ?case by simp
  next
    case 2 then show ?case by simp
  next
    case 3 then show ?case by simp
  next
    case 4 then show ?case by simp
  next
    case 5 then show ?case by simp
  next
    case 6 then show ?case by simp
  next
    case 7 then show ?case by simp
  }
next
  case (Cons a T)
  have f: "filter (\<lambda>x. tm_id x \<notin> snd ` set T) (filter (\<lambda>x. tm_id x \<noteq> snd a) xs) =
           filter (\<lambda>x. tm_id x \<notin> snd ` set (a # T)) xs" for xs
    by (induction xs) auto
  {
    case 1 then show ?case using Cons(1)[of "stopTimer (snd a) s"] f
      by (simp add: split_def stopTimer_def)
  next
    case 2 then show ?case using Cons(2)[of "stopTimer (snd a) s"]
      by (simp add: split_def stopTimer_def)
  next
    case 3 then show ?case using Cons(3)[of "stopTimer (snd a) s"]
      by (simp add: split_def stopTimer_def)
  next
    case 4 then show ?case using Cons(4)[of "stopTimer (snd a) s"]
      by (simp add: split_def stopTimer_def)
  next
    case 5 then show ?case using Cons(5)[of "stopTimer (snd a) s"]
      by (simp add: split_def stopTimer_def)
  next
    case 6 then show ?case using Cons(6)[of "stopTimer (snd a) s"]
      by (simp add: split_def stopTimer_def)
  next
    case 7 then show ?case using Cons(7)[of "stopTimer (snd a) s"]
      by (simp add: split_def stopTimer_def)
  }
qed

lemma state_ok_fold_stopTimer: "state_ok s \<Longrightarrow> state_ok (fold (\<lambda>(k, t). stopTimer t) T s)"
  by (rule fold_inv) (auto simp: state_ok_stopTimer)

lemma state_ok_fold_disconnect:
  "state_ok s \<Longrightarrow> state_ok (fold (\<lambda>(k, c). conn_disconnect c) T s)"
  by (rule fold_inv) (auto simp: state_ok_conn_disconnect)

lemma fold_disconnect:
  "host_timers (fold (\<lambda>(k, c). conn_disconnect c) T s) = host_timers s"
  "timers (fold (\<lambda>(k, c). conn_disconnect c) T s) = timers s"
  "channel_mapping (fold (\<lambda>(k, c). conn_disconnect c) T s) = channel_mapping s"
  "connections (fold (\<lambda>(k, c). conn_disconnect c) T s) = connections s"
  "next_id (fold (\<lambda>(k, c). conn_disconnect c) T s) = next_id s"
  "calls (fold (\<lambda>(k, c). conn_disconnect c) T s) = calls s @ map Disconnect (map snd T)"
  by (induction T arbitrary: s) (simp_all add: split_def conn_disconnect_def)

text \<open>After the first two statements of \<^verbatim>\<open>disconnect_channel\<close> the channel has no timer.\<close>

lemma state_ok_clear_timers:
  fixes ch
  assumes "state_ok s"
  defines "s1 \<equiv> fold (\<lambda>(k, t). stopTimer t) (timers s ch) s"
  shows "state_ok (s1\<lparr>timers := (timers s1)(ch := [])\<rparr>)"
    and "no_timer ch (s1\<lparr>timers := (timers s1)(ch := [])\<rparr>)"
proof -
  have ok1: "state_ok s1"
    unfolding s1_def using assms(1) by (rule state_ok_fold_stopTimer)
  have nt: "no_timer ch s1"
  proof -
    have "tm_id x \<in> snd ` set (timers s ch)"
      if "x \<in> set (host_timers s)" "tm_channel x = ch" for x
    proof -
      have "map_of (timers s ch) timer_id = Some (tm_id x)"
        using assms(1) that unfolding state_ok_def timers_ok_def by auto
      then have "(timer_id, tm_id x) \<in> set (timers s ch)" by (rule map_of_SomeD)
      then show ?thesis by force
    qed
    then show ?thesis
      unfolding no_timer_def s1_def fold_stopTimer by auto
  qed
  show "no_timer ch (s1\<lparr>timers := (timers s1)(ch := [])\<rparr>)"
    using nt by (simp add: no_timer_def)
  show "state_ok (s1\<lparr>timers := (timers s1)(ch := [])\<rparr>)"
    using ok1 nt unfolding state_ok_def ids_ok_def timers_ok_def no_timer_def by auto
qed

lemma state_ok_disconnect_channel:
  assumes "state_ok s"
  shows "state_ok (disconnect_channel ch s)" and "no_timer ch (disconnect_channel ch s)"
proof -
  define s1 where "s1 = fold (\<lambda>(k, t). stopTimer t) (timers s ch) s"
  define s2 where "s2 = s1\<lparr>timers := (timers s1)(ch := [])\<rparr>"
  define s3 where "s3 = fold (\<lambda>(k, c). conn_disconnect c) (connections s2 ch) s2"
  define s4 where "s4 = s3\<lparr>connections := (connections s3)(ch := [])\<rparr>"
  define g where "g = channel_to_group s4 ch"
  define s5 where "s5 = seq [softTakeoverIgnoreNextValue (EqualizerRack1 g) ''parameter1'',
                        softTakeoverIgnoreNextValue (EqualizerRack1 g) ''parameter2'',
                        softTakeoverIgnoreNextValue (EqualizerRack1 g) ''parameter3'',
                        softTakeoverIgnoreNextValue (QuickEffectRack1 g) ''super1'',
                        softTakeoverIgnoreNextValue g ''pregain'',
                        softTakeoverIgnoreNextValue g ''volume''] s4"
  have eq: "disconnect_channel ch s = s5"
    by (simp add: disconnect_channel_def seq_simps Let_def s1_def s2_def s3_def s4_def s5_def g_def)
  have ok2: "state_ok s2" "no_timer ch s2"
    using state_ok_clear_timers[OF assms, of ch] by (simp_all add: s2_def s1_def)
  have ok3: "state_ok s3" unfolding s3_def using ok2(1) by (rule state_ok_fold_disconnect)
  have nt3: "no_timer ch s3" using ok2(2) by (simp add: no_timer_def s3_def fold_disconnect)
  have ok4: "state_ok s4"
    using ok3 unfolding s4_def state_ok_def ids_ok_def timers_ok_def by auto
  have nt4: "no_timer ch s4" using nt3 by (simp add: no_timer_def s4_def)
  have oo5: "output_only s4 s5"
    unfolding s5_def by (rule output_only_seq) (auto intro: oo)
  show "state_ok (disconnect_channel ch s)"
    using state_ok_output_only[OF oo5 ok4] by (simp add: eq)
  show "no_timer ch (disconnect_channel ch s)"
    using no_timer_output_only[OF oo5 nt4] by (simp add: eq)
qed

lemma state_ok_set_channel_mapping: "state_ok s \<Longrightarrow> state_ok (set_channel_mapping ch d s)"
  by (rule state_ok_frame[where C = "[Bind ch d]"]) (simp_all add: set_channel_mapping_def)

lemma state_ok_toggle_deck_channel: "state_ok s \<Longrightarrow> state_ok (toggle_deck_channel ch s)"
  by (simp add: toggle_deck_channel_def Let_def seq_simps state_ok_print
      state_ok_disconnect_channel state_ok_set_channel_mapping state_ok_connect_channel)

lemma state_ok_gateway: "state_ok s \<Longrightarrow> state_ok (toggle_deck_channel_gateway ch s)"
  by (simp add: toggle_deck_channel_gateway_def seq_simps state_ok_toggle_deck_channel)

lemma state_ok_step:
  assumes "state_ok s"
  shows "state_ok (step e s)"
proof (cases e)
  case (ShiftPressed ch v now)
  obtain s1 where s1: "button_only s s1"
    "shiftPressed ch v now s = s1 \<or> shiftPressed ch v now s = toggle_deck_channel_gateway ch s1"
    using set_shift_button_pressed_cases[of s ch "v = 0x7F" now]
    unfolding shiftPressed_def by blast
  have "state_ok s1" using s1(1) assms by (rule state_ok_button_only)
  then show ?thesis
    using s1(2) ShiftPressed state_ok_gateway by auto
next
  case (LoopIn ch v)
  then show ?thesis
    using assms by (simp add: loop_in_def Let_def state_ok_set_loop_adjust_state)
next
  case (LoopOut ch v)
  then show ?thesis
    using assms by (simp add: loop_out_def Let_def state_ok_set_loop_adjust_state)
next
  case (HandlePad pc ctrl v)
  show ?thesis
    using handle_pad_cases[of pc ctrl v s] assms HandlePad
      state_ok_gateway[OF assms] state_ok_button_only[OF button_only_scalestep assms]
    by auto
next
  case (HostSet g k v)
  have "state_ok (s\<lparr>ctl := (ctl s)(g := (ctl s g)(k := v))\<rparr>)"
    by (rule state_ok_frame[OF assms, where C = "[]"]) simp_all
  then have "state_ok (host_set g k v s)"
    unfolding host_set_def Let_def
    by (rule fold_inv) (simp add: state_ok_observe)
  then show ?thesis using HostSet by simp
next
  case (TimerFired t)
  then show ?thesis using assms by (simp add: state_ok_timer_fired)
qed

lemma state_ok_state0: "state_ok (state0 c nd nu ns)"
  by (simp add: state_ok_def ids_ok_def timers_ok_def state0_def)

lemma seq_invI_Nil: "P s \<Longrightarrow> P (seq [] s)"
  by (simp add: seq_Nil)

lemma seq_invI_Cons:
  "(\<And>s. P s \<Longrightarrow> P (f s)) \<Longrightarrow> (\<And>s. P s \<Longrightarrow> P (seq fs s)) \<Longrightarrow> P s \<Longrightarrow> P (seq (f # fs) s)"
  by (simp add: seq_Cons)

lemmas state_ok_seq = seq_invI_Cons[where P = state_ok] seq_invI_Nil[where P = state_ok]

lemma state_ok_init_effect_unit:
  "state_ok s \<Longrightarrow>
   state_ok (fold (\<lambda>d s. s\<lparr>deck := (deck s)(d := (deck s d)
                   \<lparr>effect_unit := Some (default_effect_unit ! d)\<rparr>)\<rparr>) xs s)"
proof (rule fold_inv)
  fix x s' assume "state_ok s'"
  then show "state_ok (s'\<lparr>deck := (deck s')(x := (deck s' x)
                   \<lparr>effect_unit := Some (default_effect_unit ! x)\<rparr>)\<rparr>)"
    by (rule state_ok_frame[where C = "[]"]) simp_all
qed

lemma state_ok_init_scalestep:
  "state_ok s \<Longrightarrow>
   state_ok (s\<lparr>channel := (channel s)(c := (channel s c)\<lparr>beatjump_scalestep := Some 0\<rparr>)\<rparr>)"
  by (rule state_ok_frame[where C = "[]"]) simp_all

lemma state_ok_init_slots:
  "state_ok s \<Longrightarrow>
   state_ok (fold (\<lambda>slot.
                 let effect_group = get_effect_group (Some unit) (real slot) in
                 seq [softTakeover effect_group ''meta'',
                      (\<lambda>s. persistent_put (Effect_unit_slot_enabled unit slot)
                              (next_id s)
                              (makeConnection effect_group ''enabled''
                                 Update_fx_light s))]) xs s)"
proof (rule fold_inv)
  fix x s' assume "state_ok s'"
  then show "state_ok ((let effect_group = get_effect_group (Some unit) (real x) in
                 seq [softTakeover effect_group ''meta'',
                      (\<lambda>s. persistent_put (Effect_unit_slot_enabled unit x)
                              (next_id s)
                              (makeConnection effect_group ''enabled''
                                 Update_fx_light s))]) s')"
    unfolding Let_def
    by (intro state_ok_seq state_ok_make_persistent
        state_ok_output_only[OF output_only_softTakeover]) assumption+
qed

lemma state_ok_init_units:
  "state_ok s \<Longrightarrow>
   state_ok (fold (\<lambda>unit.
                   let unit_group = get_effect_unit_group (Some unit) in
                   seq [softTakeover unit_group ''mix'',
                        (\<lambda>s. persistent_put (Effect_unit_focussed unit) (next_id s)
                                (makeConnection unit_group ''focused_effect'' Update_fx_light s)),
                        (\<lambda>s. fold (\<lambda>slot.
                                 let effect_group = get_effect_group (Some unit) (real slot) in
                                 seq [softTakeover effect_group ''meta'',
                                      (\<lambda>s. persistent_put (Effect_unit_slot_enabled unit slot)
                                              (next_id s)
                                              (makeConnection effect_group ''enabled''
                                                 Update_fx_light s))])
                               [1..<Suc (get_num_effect_slots s unit)] s)]) xs s)"
proof (rule fold_inv)
  fix x s' assume ok: "state_ok s'"
  show "state_ok ((let unit_group = get_effect_unit_group (Some x) in
                   seq [softTakeover unit_group ''mix'',
                        (\<lambda>s. persistent_put (Effect_unit_focussed x) (next_id s)
                                (makeConnection unit_group ''focused_effect'' Update_fx_light s)),
                        (\<lambda>s. fold (\<lambda>slot.
                                 let effect_group = get_effect_group (Some x) (real slot) in
                                 seq [softTakeover effect_group ''meta'',
                                      (\<lambda>s. persistent_put (Effect_unit_slot_enabled x slot)
                                              (next_id s)
                                              (makeConnection effect_group ''enabled''
                                                 Update_fx_light s))])
                               [1..<Suc (get_num_effect_slots s x)] s)]) s')"
    unfolding Let_def
    by (intro state_ok_seq state_ok_init_slots[unfolded Let_def] state_ok_make_persistent
        state_ok_output_only[OF output_only_softTakeover]) (assumption | rule ok)+
qed

lemma state_ok_init_decks:
  "state_ok s \<Longrightarrow>
   state_ok (fold (\<lambda>d.
                  let g = deck_to_group d;
                      eq_group = EqualizerRack1 g
                  in seq [print (Setting_up_soft_takeover eq_group),
                          softTakeover eq_group ''parameter1'',
                          softTakeover eq_group ''parameter2'',
                          softTakeover eq_group ''parameter3'',
                          softTakeover (QuickEffectRack1 g) ''super1'',
                          softTakeover g ''pregain'',
                          softTakeover g ''volume'']) xs s)"
proof (rule fold_inv)
  fix x s' assume ok: "state_ok s'"
  show "state_ok ((let g = deck_to_group x;
                      eq_group = EqualizerRack1 g
                  in seq [print (Setting_up_soft_takeover eq_group),
                          softTakeover eq_group ''parameter1'',
                          softTakeover eq_group ''parameter2'',
                          softTakeover eq_group ''parameter3'',
                          softTakeover (QuickEffectRack1 g) ''super1'',
                          softTakeover g ''pregain'',
                          softTakeover g ''volume'']) s')"
    unfolding Let_def
    by (rule state_ok_lights[OF ok]) (auto intro: oo)
qed

lemma state_ok_init: "state_ok s \<Longrightarrow> state_ok (init s)"
  unfolding init_def Let_def
  by (intro state_ok_seq state_ok_connect_channel state_ok_init_decks[unfolded Let_def]
      state_ok_init_units[unfolded Let_def]
      state_ok_set_current_loop_modifier state_ok_make_persistent
      state_ok_output_only[OF output_only_update_head_split_light]
      state_ok_output_only[OF output_only_update_brake_light]
      state_ok_output_only[OF output_only_set_backspin_length]
      state_ok_output_only[OF output_only_update_beatjump_shift_lights]
      state_ok_init_scalestep state_ok_init_effect_unit
      state_ok_output_only[OF output_only_track_loaded_animation]) assumption+

lemma reachable_state_ok: "reachable s \<Longrightarrow> state_ok s"
  by (induction rule: reachable.induct) (simp_all add: state_ok_init state_ok_state0 state_ok_step)

lemma toggle_deck_channel_steps:
  assumes "channel_to_deck s ch \<noteq> next_deck s ch (channel_to_deck s ch)"
  shows "toggle_deck_channel ch s =
           connect_channel ch (set_channel_mapping ch (next_deck s ch (channel_to_deck s ch))
             (disconnect_channel ch
               (print (Toggling_deck (channel_to_deck s ch) (next_deck s ch (channel_to_deck s ch))) s)))"
  using assms by (simp add: toggle_deck_channel_def Let_def seq_simps)

text \<open>
  Claim C8: in every reachable state a channel has at most one active blink timer, in the
  host and at every point of the log; when the log arms a timer for a channel, no timer of
  that channel is active at that point (the existing one was stopped before); and in a
  rebind, after \<^verbatim>\<open>disconnect_channel\<close> and before the binding is written and the channel
  connected again, the channel has no active timer.
\<close>

theorem timer_singularity:
  assumes "reachable s"
  shows "(\<forall>c. length (filter (\<lambda>x. tm_channel x = c) (host_timers s)) \<le> 1) \<and>
         active_timers (calls s) = map (\<lambda>x. (tm_id x, tm_channel x)) (host_timers s) \<and>
         (\<forall>n c. length (filter (\<lambda>x. snd x = c) (active_timers (take n (calls s)))) \<le> 1) \<and>
         (\<forall>n i p c b. n < length (calls s) \<and> calls s ! n = BeginTimer i p c b \<longrightarrow>
            c \<notin> snd ` set (active_timers (take n (calls s)))) \<and>
         (\<forall>ch. channel_to_deck s ch \<noteq> next_deck s ch (channel_to_deck s ch) \<longrightarrow>
            no_timer ch (disconnect_channel ch
              (print (Toggling_deck (channel_to_deck s ch) (next_deck s ch (channel_to_deck s ch))) s)) \<and>
            toggle_deck_channel ch s =
              connect_channel ch (set_channel_mapping ch (next_deck s ch (channel_to_deck s ch))
                (disconnect_channel ch
                  (print (Toggling_deck (channel_to_deck s ch)
                     (next_deck s ch (channel_to_deck s ch))) s))))"
proof -
  let ?A = "map (\<lambda>x. (tm_id x, tm_channel x)) (host_timers s)"
  have ok: "state_ok s" using assms by (rule reachable_state_ok)
  then have bl: "blink_log [] (calls s) = Some ?A"
    by (simp add: state_ok_def timers_ok_def)
  have act: "active_timers (calls s) = ?A"
    unfolding active_timers_def by (rule blink_log_fold[OF bl])
  have single: "\<forall>c. length (filter (\<lambda>x. snd x = c) B) \<le> 1"
    if "blink_log [] es = Some B" for es B
    using blink_log_single[OF that] by simp
  have "length (filter (\<lambda>x. tm_channel x = c) (host_timers s)) \<le> 1" for c
  proof -
    have "length (filter (\<lambda>x. snd x = c) ?A) = length (filter (\<lambda>x. tm_channel x = c) (host_timers s))"
      by (simp add: filter_map comp_def)
    then show ?thesis using single[OF bl] by metis
  qed
  moreover have "length (filter (\<lambda>x. snd x = c) (active_timers (take n (calls s)))) \<le> 1" for n c
  proof -
    obtain B where B: "blink_log [] (take n (calls s)) = Some B"
      using blink_log_take[OF bl] by blast
    have "active_timers (take n (calls s)) = B"
      unfolding active_timers_def by (rule blink_log_fold[OF B])
    then show ?thesis using single[OF B] by simp
  qed
  moreover have "c \<notin> snd ` set (active_timers (take n (calls s)))"
    if "n < length (calls s)" "calls s ! n = BeginTimer i p c b" for n i p c b
    using blink_log_begin_free[OF bl that] .
  moreover have "no_timer ch (disconnect_channel ch (print m s))" for ch m
    by (rule state_ok_disconnect_channel(2)[OF state_ok_print[OF ok]])
  ultimately show ?thesis
    using act toggle_deck_channel_steps by blast
qed

lemma reachable_four_decks_looping: "reachable four_decks_looping"
  unfolding four_decks_looping_def by (rule reachable.start)

theorem timer_singularity_witness:
  "reachable four_decks_looping \<and>
   (\<forall>c. length (filter (\<lambda>x. tm_channel x = c) (host_timers four_decks_looping)) \<le> 1) \<and>
   (\<forall>n c. length (filter (\<lambda>x. snd x = c)
      (active_timers (take n (calls four_decks_looping)))) \<le> 1) \<and>
   no_timer 0 (disconnect_channel 0 (print (Toggling_deck 0 2) four_decks_looping))"
proof -
  have "channel_to_deck four_decks_looping 0 = 0"
    "next_deck four_decks_looping 0 0 = 2"
    by (simp_all add: channel_to_deck_def next_deck_def get_num_decks_def
        four_decks_looping_facts)
  then show ?thesis
    using timer_singularity[OF reachable_four_decks_looping] reachable_four_decks_looping
    by (metis zero_neq_numeral)
qed

subsection \<open>The order of a rebind\<close>

lemma active_ids_append: "active_ids (xs @ ys) = fold log_step ys (active_ids xs)"
  by (simp add: active_ids_def)

lemma log_step_cases:
  "log_step e A = (case creates e of Some i \<Rightarrow> insert i A | None \<Rightarrow> log_step e A)"
  by (cases e) simp_all

lemma log_step_subset: "creates e = None \<Longrightarrow> log_step e A \<subseteq> A"
  by (cases e) auto

lemma log_step_created: "creates e = Some i \<Longrightarrow> log_step e A = insert i A"
  by (cases e) auto

lemma fold_log_step_created:
  "fold log_step es A \<subseteq> A \<union> {i. \<exists>e\<in>set es. creates e = Some i}"
proof (induction es arbitrary: A)
  case Nil
  then show ?case by simp
next
  case (Cons e es)
  have "log_step e A \<subseteq> A \<union> {i. creates e = Some i}"
    by (cases "creates e") (auto simp: log_step_created dest: log_step_subset[THEN subsetD])
  then show ?case using Cons[of "log_step e A"] by auto
qed

lemma fold_log_step_removed:
  assumes "\<forall>e\<in>set es. creates e = None"
    and "StopTimer i \<in> set es \<or> Disconnect i \<in> set es"
  shows "i \<notin> fold log_step es A"
  using assms
proof (induction es arbitrary: A)
  case Nil
  then show ?case by simp
next
  case (Cons e es)
  show ?case
  proof (cases "StopTimer i \<in> set es \<or> Disconnect i \<in> set es")
    case True
    then show ?thesis using Cons by simp
  next
    case False
    then have "e = StopTimer i \<or> e = Disconnect i" using Cons.prems(2) by auto
    then have "i \<notin> log_step e A" by auto
    moreover have "fold log_step es (log_step e A) \<subseteq> log_step e A"
      using fold_log_step_created[of es "log_step e A"] Cons.prems(1) by auto
    ultimately show ?thesis by auto
  qed
qed

lemma fold_log_step_disjoint:
  assumes "\<forall>e\<in>set es. \<forall>i. creates e = Some i \<longrightarrow> i \<notin> ids" and "A \<inter> ids = {}"
  shows "fold log_step es A \<inter> ids = {}"
  using assms
proof (induction es arbitrary: A)
  case Nil
  then show ?case by simp
next
  case (Cons e es)
  have "log_step e A \<inter> ids = {}"
  proof (cases "creates e")
    case None
    then show ?thesis using log_step_subset[OF None, of A] Cons.prems(2) by auto
  next
    case (Some i)
    then show ?thesis using Cons.prems by (auto simp: log_step_created)
  qed
  then show ?case using Cons by simp
qed

lemma disconnect_channel_log:
  "calls (disconnect_channel ch s) =
     calls s @ map StopTimer (map snd (timers s ch)) @
     map Disconnect (map snd (connections s ch)) @
     [SoftTakeoverIgnoreNextValue (EqualizerRack1 (channel_to_group s ch)) ''parameter1'',
      SoftTakeoverIgnoreNextValue (EqualizerRack1 (channel_to_group s ch)) ''parameter2'',
      SoftTakeoverIgnoreNextValue (EqualizerRack1 (channel_to_group s ch)) ''parameter3'',
      SoftTakeoverIgnoreNextValue (QuickEffectRack1 (channel_to_group s ch)) ''super1'',
      SoftTakeoverIgnoreNextValue (channel_to_group s ch) ''pregain'',
      SoftTakeoverIgnoreNextValue (channel_to_group s ch) ''volume'']"
  "next_id (disconnect_channel ch s) = next_id s"
  by (simp_all add: disconnect_channel_def seq_simps Let_def fold_stopTimer fold_disconnect
      softTakeoverIgnoreNextValue_def channel_to_group_def channel_to_deck_def)


subsection \<open>What the observers put on the lights\<close>

lemma put_Nil: "put [] L = L"
  by (simp add: put_def)

lemma put_Cons: "put ((a, v) # W) L = put W (L(a \<mapsto> v))"
  by (simp add: put_def)

lemma put_append: "put (W @ W') L = put W' (put W L)"
  by (simp add: put_def)

lemma put_other: "a \<notin> fst ` set W \<Longrightarrow> put W L a = L a"
  by (induction W arbitrary: L) (auto simp: put_Nil put_Cons)

lemma put_distinct:
  "distinct (map fst W) \<Longrightarrow> (a, v) \<in> set W \<Longrightarrow> put W L a = Some v"
proof (induction W arbitrary: L)
  case Nil
  then show ?case by simp
next
  case (Cons w W)
  obtain b x where w: "w = (b, x)" by (cases w)
  show ?case
  proof (cases "(a, v) = w")
    case True
    then have "a \<notin> fst ` set W" using Cons.prems(1) w by auto
    then show ?thesis using True w by (simp add: put_Cons put_other)
  next
    case False
    then have "(a, v) \<in> set W" and "distinct (map fst W)" using Cons.prems by auto
    then have "put W (L(b \<mapsto> x)) a = Some v" by (rule Cons.IH[rotated])
    then show ?thesis using w by (simp add: put_Cons)
  qed
qed

lemma leds_sendShortMsg: "leds (sendShortMsg st d v s) = put [((st, d), v)] (leds s)"
  by (simp add: sendShortMsg_def put_Cons put_Nil)

lemma leds_update_light:
  "leds (update_light ch m a s) = put [(light_at m ch, if a then 0x7F else 0)] (leds s)"
  by (simp add: update_light_def leds_sendShortMsg light_at_def)

lemma leds_set_pad_light:
  "leds (set_pad_light mode ch padnum shift v s) = put [(pad_at mode ch padnum shift, v)] (leds s)"
  by (simp add: set_pad_light_def leds_sendShortMsg pad_at_def)

lemma leds_print: "leds (print m s) = leds s"
  by (simp add: print_def)

lemma leds_deck_to_channel_warn: "leds (deck_to_channel_warn d s) = leds s"
  by (simp add: deck_to_channel_warn_def leds_print)

lemma leds_update_indicator:
  assumes "is_group_active s g" and "group_to_channel s g = ch"
  shows "leds (update_indicator v g m sm s) =
           put ((light_at m ch, on_off v) #
                (case sm of None \<Rightarrow> [] | Some x \<Rightarrow> [(light_at x ch, on_off v)])) (leds s)"
  using assms
  by (simp add: update_indicator_def Let_def seq_simps leds_update_light put_Cons put_Nil
      on_off_def split: option.splits)

lemma leds_run_callback:
  assumes "plain_observer f" and "is_group_active s g" and "group_to_channel s g = ch"
  shows "leds (run_callback f v g s) = put (display f v ch) (leds s)"
proof (cases f)
  case Vu_meter_update
  then show ?thesis
    using assms(3)
    by (simp add: run_callback_def vu_meter_update_def Let_def seq_simps leds_sendShortMsg
        leds_deck_to_channel_warn light_at_def group_to_channel_def deck_to_channel_def
        deck_to_channel_warn_def print_def)
next
  case Track_loaded_animation
  then show ?thesis
    using assms(3)
    by (simp add: run_callback_def track_loaded_animation_def seq_simps leds_sendShortMsg
        group_to_channel_def deck_to_channel_def deck_to_channel_warn_def print_def)
next
  case Keylock_update
  then show ?thesis
    using assms(2,3)
    by (simp add: run_callback_def keylock_update_def Let_def leds_set_pad_light on_off_def)
next
  case (Update_beatloop n)
  then show ?thesis
    using assms(2,3)
    by (simp add: run_callback_def update_beatloop_def Let_def leds_set_pad_light on_off_def)
next
  case (Update_hotcue n)
  then show ?thesis
    using assms(2,3)
    by (simp add: run_callback_def update_hotcue_def Let_def seq_simps leds_set_pad_light
        on_off_def put_Cons put_Nil)
qed (use assms in \<open>simp_all add: run_callback_def play_indicator_def cue_indicator_def
      beatsync_update_def beatmaster_update_def headphone_cue_update_def quantize_update_def
      leds_update_indicator\<close>)

subsection \<open>A channel after \<^verbatim>\<open>disconnect_channel\<close>\<close>

lemma fold_stopTimer_rest:
  "leds (fold (\<lambda>(k, t). stopTimer t) T s) = leds s"
  "ctl (fold (\<lambda>(k, t). stopTimer t) T s) = ctl s"
  "deck (fold (\<lambda>(k, t). stopTimer t) T s) = deck s"
  "channel (fold (\<lambda>(k, t). stopTimer t) T s) = channel s"
  "num_decks (fold (\<lambda>(k, t). stopTimer t) T s) = num_decks s"
  "last_shift_button_pressed (fold (\<lambda>(k, t). stopTimer t) T s) = last_shift_button_pressed s"
  by (induction T arbitrary: s) (simp_all add: split_def stopTimer_def)

lemma fold_disconnect_rest:
  "leds (fold (\<lambda>(k, c). conn_disconnect c) T s) = leds s"
  "ctl (fold (\<lambda>(k, c). conn_disconnect c) T s) = ctl s"
  "deck (fold (\<lambda>(k, c). conn_disconnect c) T s) = deck s"
  "channel (fold (\<lambda>(k, c). conn_disconnect c) T s) = channel s"
  "num_decks (fold (\<lambda>(k, c). conn_disconnect c) T s) = num_decks s"
  "last_shift_button_pressed (fold (\<lambda>(k, c). conn_disconnect c) T s) = last_shift_button_pressed s"
  by (induction T arbitrary: s) (simp_all add: split_def conn_disconnect_def)

lemma disconnect_channel_fields:
  "timers (disconnect_channel ch s) = (timers s)(ch := [])"
  "connections (disconnect_channel ch s) = (connections s)(ch := [])"
  "leds (disconnect_channel ch s) = leds s"
  "ctl (disconnect_channel ch s) = ctl s"
  "deck (disconnect_channel ch s) = deck s"
  "channel (disconnect_channel ch s) = channel s"
  "num_decks (disconnect_channel ch s) = num_decks s"
  "last_shift_button_pressed (disconnect_channel ch s) = last_shift_button_pressed s"
  by (simp_all add: disconnect_channel_def seq_simps Let_def fold_stopTimer fold_disconnect
      fold_stopTimer_rest fold_disconnect_rest softTakeoverIgnoreNextValue_def)

subsection \<open>The loop observer on a channel without a blink timer\<close>

lemma group_to_deck_deck_to_group: "d < 4 \<Longrightarrow> group_to_deck (deck_to_group d) = d"
  by (auto simp: group_to_deck_def deck_to_group_def)

lemma update_light_fields:
  "timers (update_light ch m a s) = timers s"
  "host_timers (update_light ch m a s) = host_timers s"
  "next_id (update_light ch m a s) = next_id s"
  "channel_mapping (update_light ch m a s) = channel_mapping s"
  by (simp_all add: update_light_def sendShortMsg_def)

lemma set_loop_enabled_fresh:
  fixes s ch d
  assumes "d < 4" and "ch < 2" and "channel_mapping s ! ch = d" and "deck_to_channel s d = ch"
    and "map_of (timers s ch) timer_id = None"
  defines "v \<equiv> ctl s (deck_to_group d) ''loop_enabled''"
  defines "s' \<equiv> set_loop_enabled v (deck_to_group d) s"
  shows "leds s' = put (display Set_loop_enabled v ch) (leds s)"
    and "timers s' = (if truthy v
           then (timers s)(ch := AList.update timer_id (next_id s) (timers s ch))
           else timers s)"
    and "host_timers s' = (if truthy v
           then host_timers s @
             [\<lparr>tm_id = next_id s, tm_period = times_loop_active, tm_channel = ch,
               tm_blink = Blink_both, tm_blink_state = False\<rparr>]
           else host_timers s)"
    and "next_id s' = (if truthy v then Suc (next_id s) else next_id s)"
proof -
  have act: "is_deck_active s d"
    using assms(2,3) by (auto simp: is_deck_active_def less_2_cases_iff)
  define s1 where "s1 = s\<lparr>deck := (deck s)(d := (deck s d)\<lparr>loop_adjust := Some none\<rparr>)\<rparr>"
  have s1: "channel_mapping s1 = channel_mapping s" "timers s1 = timers s" "ctl s1 = ctl s"
    "leds s1 = leds s" "host_timers s1 = host_timers s" "next_id s1 = next_id s"
    "get_loop_adjust_state s1 d = none" "is_deck_active s1 d = is_deck_active s d"
    "deck_to_channel s1 d = deck_to_channel s d"
    by (simp_all add: s1_def get_loop_adjust_state_def is_deck_active_def deck_to_channel_def)
  define s2 where "s2 = update_loop_inout_lights ch s1"
  have stop: "stop_blink ch s1 = s1"
    using assms(5) by (simp add: stop_blink_def s1)
  have la: "get_loop_active s1 (channel_to_group s1 ch) = v"
    using assms(3) by (simp add: get_loop_active_def getValue_def channel_to_group_def
        channel_to_deck_def s1 v_def)
  have s2: "leds s2 = put [(light_at lights_loop_in ch, if truthy v then 0 else 0x7F),
      (light_at lights_loop_out ch, if truthy v then 0 else 0x7F),
      (light_at lights_shift_loop_in ch, if truthy v then 0 else 0x7F),
      (light_at lights_shift_loop_out ch, if truthy v then 0 else 0x7F)] (leds s)"
    "timers s2 = (if truthy v
           then (timers s)(ch := AList.update timer_id (next_id s) (timers s ch))
           else timers s)"
    "host_timers s2 = (if truthy v
           then host_timers s @
             [\<lparr>tm_id = next_id s, tm_period = times_loop_active, tm_channel = ch,
               tm_blink = Blink_both, tm_blink_state = False\<rparr>]
           else host_timers s)"
    "next_id s2 = (if truthy v then Suc (next_id s) else next_id s)"
    "channel_mapping s2 = channel_mapping s"
    using assms(3,5)
    by (simp_all add: s2_def update_loop_inout_lights_def Let_def la stop seq_simps
        channel_to_deck_def s1 leds_update_light set_current_loop_modifier_def
        begin_blink_def beginTimer_def put_Cons put_Nil update_light_fields)
  have eq: "s' = set_reloop_light ch (truthy v) s2"
  proof -
    have "set_loop_adjust_state d none s = s2"
      using act assms(4)
      by (simp add: set_loop_adjust_state_def Let_def s1_def[symmetric] s1 s2_def)
    moreover have "is_deck_active s2 d = is_deck_active s d"
      "deck_to_channel s2 d = deck_to_channel s d"
      by (simp_all add: is_deck_active_def deck_to_channel_def s2(5))
    ultimately show ?thesis
      using assms(1,4) act
      by (simp add: s'_def set_loop_enabled_def Let_def group_to_deck_deck_to_group
          is_group_active_def group_to_channel_def)
  qed
  show "leds s' = put (display Set_loop_enabled v ch) (leds s)"
    by (simp add: eq set_reloop_light_def seq_simps leds_update_light s2 put_Cons put_Nil
        on_off_def)
  show "timers s' = (if truthy v
           then (timers s)(ch := AList.update timer_id (next_id s) (timers s ch))
           else timers s)"
    by (simp add: eq set_reloop_light_def seq_simps update_light_fields s2)
  show "host_timers s' = (if truthy v
           then host_timers s @
             [\<lparr>tm_id = next_id s, tm_period = times_loop_active, tm_channel = ch,
               tm_blink = Blink_both, tm_blink_state = False\<rparr>]
           else host_timers s)"
    by (simp add: eq set_reloop_light_def seq_simps update_light_fields s2)
  show "next_id s' = (if truthy v then Suc (next_id s) else next_id s)"
    by (simp add: eq set_reloop_light_def seq_simps update_light_fields s2)
qed

subsection \<open>The connections of a channel\<close>

lemma conns_kept_refl: "conns_kept s s"
  by (simp add: conns_kept_def)

lemma conns_kept_trans: "conns_kept a b \<Longrightarrow> conns_kept b c \<Longrightarrow> conns_kept a c"
  by (simp add: conns_kept_def)

lemma conns_kept_fold:
  "(\<And>x s. x \<in> set xs \<Longrightarrow> conns_kept s (f x s)) \<Longrightarrow> conns_kept s (fold f xs s)"
  by (rule fold_rel[where R = conns_kept]) (auto intro: conns_kept_refl conns_kept_trans)

lemma loop_only_conns_kept: "loop_only s s' \<Longrightarrow> conns_kept s s'"
  by (simp add: conns_kept_def loop_only_def connect_only_def)

lemma output_only_conns_kept: "output_only s s' \<Longrightarrow> conns_kept s s'"
  by (simp add: conns_kept_def output_only_def)

lemma button_only_conns_kept: "button_only s s' \<Longrightarrow> conns_kept s s'"
  by (simp add: conns_kept_def button_only_def)

lemma conns_kept_observe: "conns_kept s (observe f v g s)"
proof -
  have "conns_kept s (s\<lparr>calls := calls s @ [Called f v g]\<rparr>)"
    by (simp add: conns_kept_def)
  then show ?thesis
    unfolding observe_def
    by (rule conns_kept_trans) (rule loop_only_conns_kept[OF loop_only_run_callback])
qed

lemma conns_kept_trigger: "conns_kept s (trigger c s)"
proof -
  have a: "conns_kept s (s\<lparr>calls := calls s @ [Trigger c]\<rparr>)"
    by (simp add: conns_kept_def)
  show ?thesis
    unfolding trigger_def Let_def
    by (auto split: option.splits intro: a conns_kept_trans[OF a conns_kept_observe])
qed

lemma conns_kept_connections_trigger: "conns_kept s (connections_trigger ch k s)"
  by (simp add: connections_trigger_def conns_kept_refl conns_kept_trigger split: option.splits)

lemma conns_kept_host_set: "conns_kept s (host_set g k v s)"
proof -
  have a: "conns_kept s (s\<lparr>ctl := (ctl s)(g := (ctl s g)(k := v))\<rparr>)"
    by (simp add: conns_kept_def)
  show ?thesis
    unfolding host_set_def Let_def
    by (rule conns_kept_trans[OF a]) (rule conns_kept_fold, rule conns_kept_observe)
qed

lemma held_cong:
  "connections s' c = connections s c \<Longrightarrow> channel_mapping s' ! c = channel_mapping s ! c \<Longrightarrow>
   held s' c x = held s c x"
  by (simp add: held_def channel_to_group_def channel_to_deck_def)

lemma conns_for_kept: "conns_kept s s' \<Longrightarrow> conns_for C s \<Longrightarrow> conns_for C s'"
  unfolding conns_for_def conns_kept_def
  by (auto simp: held_cong[of s' _ s])

lemma conns_for_mono: "conns_for C s \<Longrightarrow> C \<subseteq> C' \<Longrightarrow> conns_for C' s"
  unfolding conns_for_def by blast

lemma conns_ok_kept: "conns_kept s s' \<Longrightarrow> conns_ok s \<Longrightarrow> conns_ok s'"
  unfolding conns_ok_def by (rule conns_for_kept)

lemma set_update_fresh:
  "k \<notin> fst ` set al \<Longrightarrow> set (AList.update k v al) = insert (k, v) (set al)"
  by (induction al) auto

lemma conns_for_make_put:
  assumes "conns_for C s" and "ch \<in> C" and "k \<notin> fst ` set (connections s ch)"
    and "k = Control ctrl \<and> g = channel_to_group s ch \<or>
         (\<exists>n\<in>set (sampler_groups ! channel_to_deck s ch). k = Sampler_light n \<and> g = Sampler n)"
  shows "conns_for C (connections_put ch k (next_id s) (makeConnection g ctrl f s))"
proof -
  let ?s' = "connections_put ch k (next_id s) (makeConnection g ctrl f s)"
  let ?x = "\<lparr>cn_id = next_id s, cn_group = g, cn_control = ctrl, cn_fun = f\<rparr>"
  have hc: "host_conns ?s' = host_conns s @ [?x]"
    and cm: "channel_mapping ?s' = channel_mapping s"
    and tb: "connections ?s' = (connections s)(ch := AList.update k (next_id s) (connections s ch))"
    by (simp_all add: connections_put_def makeConnection_def)
  have st: "set (connections ?s' ch) = insert (k, next_id s) (set (connections s ch))"
    by (simp add: tb set_update_fresh[OF assms(3)])
  have old: "held ?s' c x" if "held s c x" for c x
  proof (cases "c = ch")
    case True
    then show ?thesis
      using that st by (auto simp: held_def channel_to_group_def channel_to_deck_def cm)
  next
    case False
    then show ?thesis
      using that by (simp add: held_cong[of ?s' c s] tb cm)
  qed
  have new: "held ?s' ch ?x"
    using assms(4) st by (auto simp: held_def channel_to_group_def channel_to_deck_def cm)
  show ?thesis
    unfolding conns_for_def
  proof (intro ballI impI)
    fix x assume x: "x \<in> set (host_conns ?s')" "deckish (cn_group x)"
    show "\<exists>c\<in>C. held ?s' c x"
    proof (cases "x = ?x")
      case True
      then show ?thesis using new assms(2) by blast
    next
      case False
      then have "x \<in> set (host_conns s)" using x(1) by (simp add: hc)
      then obtain c where "c \<in> C" "held s c x"
        using assms(1) x(2) unfolding conns_for_def by blast
      then show ?thesis using old by blast
    qed
  qed
qed

lemma connect_control_step:
  "connect_control ch g (k, f, t) s =
     (if t then connections_trigger ch (Control k) else (\<lambda>s. s))
       (connections_put ch (Control k) (next_id s) (makeConnection g k f s))"
  by (simp add: connect_control_def seq_simps)

lemma connect_sampler_step:
  "connect_sampler ch ds p s =
     connections_trigger ch (Sampler_light (ds ! p))
       (connections_put ch (Sampler_light (ds ! p)) (next_id s)
          (makeConnection (Sampler (ds ! p)) ''track_loaded'' Update_sampler s))"
  by (simp add: connect_sampler_def seq_simps)

lemma connect_samplers_fold:
  "connect_samplers ch s =
     fold (connect_sampler ch (sampler_groups ! channel_to_deck s ch))
       [0..<length (sampler_groups ! channel_to_deck s ch)] s"
proof -
  have "(\<lambda>padnum. seq [(\<lambda>s. connections_put ch (Sampler_light (ds ! padnum)) (next_id s)
                           (makeConnection (Sampler (ds ! padnum)) ''track_loaded'' Update_sampler s)),
                   connections_trigger ch (Sampler_light (ds ! padnum))]) = connect_sampler ch ds"
    for ds
    by (simp add: fun_eq_iff connect_sampler_def)
  then show ?thesis
    by (simp add: connect_samplers_def Let_def)
qed

lemma connect_channel_steps:
  "connect_channel ch s =
     update_fx_light (update_deck_channel_indicator ch (connect_samplers ch
       (fold (connect_control ch (channel_to_group s ch)) output_control_to_function
          (print (Connecting ch (channel_to_deck s ch) (channel_to_group s ch)) s))))"
proof -
  have "(\<lambda>(control, f, trig).
                 seq [(\<lambda>s. connections_put ch (Control control) (next_id s)
                              (makeConnection g control f s)),
                      (if trig then connections_trigger ch (Control control) else (\<lambda>s. s))]) =
        connect_control ch g" for g
    by (simp add: fun_eq_iff connect_control_def)
  then show ?thesis
    by (simp add: connect_channel_def Let_def seq_simps channel_to_group_def)
qed

lemma conns_for_connect_control:
  assumes "conns_for C s" and "ch \<in> C" and "Control k \<notin> fst ` set (connections s ch)"
    and "g = channel_to_group s ch"
  shows "conns_for C (connect_control ch g (k, f, t) s)"
    and "fst ` set (connections (connect_control ch g (k, f, t) s) ch) =
           insert (Control k) (fst ` set (connections s ch))"
    and "channel_mapping (connect_control ch g (k, f, t) s) = channel_mapping s"
proof -
  let ?p = "connections_put ch (Control k) (next_id s) (makeConnection g k f s)"
  let ?s' = "connect_control ch g (k, f, t) s"
  have p: "conns_for C ?p"
    by (rule conns_for_make_put[OF assms(1,2,3)]) (simp add: assms(4))
  have k: "conns_kept ?p ?s'"
    by (simp add: connect_control_step conns_kept_refl conns_kept_connections_trigger)
  show "conns_for C ?s'" using k p by (rule conns_for_kept)
  have "connections ?s' = connections ?p" "channel_mapping ?s' = channel_mapping ?p"
    using k by (simp_all add: conns_kept_def)
  then show "fst ` set (connections ?s' ch) = insert (Control k) (fst ` set (connections s ch))"
    and "channel_mapping ?s' = channel_mapping s"
    by (simp_all add: connections_put_def makeConnection_def set_update_fresh[OF assms(3)])
qed

lemma conns_for_connect_controls:
  assumes "conns_for C s" and "ch \<in> C" and "distinct (map fst es)"
    and "\<forall>e\<in>set es. Control (fst e) \<notin> fst ` set (connections s ch)"
    and "g = channel_to_group s ch"
  shows "conns_for C (fold (connect_control ch g) es s) \<and>
         fst ` set (connections (fold (connect_control ch g) es s) ch) =
           fst ` set (connections s ch) \<union> Control ` fst ` set es \<and>
         channel_mapping (fold (connect_control ch g) es s) = channel_mapping s"
  using assms
proof (induction es arbitrary: s)
  case Nil
  then show ?case by simp
next
  case (Cons e es)
  obtain k f t where e: "e = (k, f, t)" by (cases e)
  let ?s1 = "connect_control ch g (k, f, t) s"
  have fresh: "Control k \<notin> fst ` set (connections s ch)"
    using Cons.prems(4) e by simp
  note st = conns_for_connect_control[OF Cons.prems(1,2) fresh Cons.prems(5), of f t]
  have "channel_to_group ?s1 ch = channel_to_group s ch"
    by (simp only: channel_to_group_def channel_to_deck_def st(3))
  then have g1: "g = channel_to_group ?s1 ch"
    by (simp only: Cons.prems(5))
  have "\<forall>e'\<in>set es. Control (fst e') \<notin> fst ` set (connections ?s1 ch)"
    using Cons.prems(3,4) e by (auto simp: st(2))
  moreover have "distinct (map fst es)" using Cons.prems(3) by simp
  ultimately have "conns_for C (fold (connect_control ch g) es ?s1) \<and>
         fst ` set (connections (fold (connect_control ch g) es ?s1) ch) =
           fst ` set (connections ?s1 ch) \<union> Control ` fst ` set es \<and>
         channel_mapping (fold (connect_control ch g) es ?s1) = channel_mapping ?s1"
    using Cons.IH[OF st(1) Cons.prems(2) _ _ g1] by blast
  then show ?case
    by (simp add: e st(2,3))
qed

lemma conns_for_connect_sampler:
  assumes "conns_for C s" and "ch \<in> C"
    and "Sampler_light (ds ! p) \<notin> fst ` set (connections s ch)"
    and "ds = sampler_groups ! channel_to_deck s ch" and "p < length ds"
  shows "conns_for C (connect_sampler ch ds p s)"
    and "fst ` set (connections (connect_sampler ch ds p s) ch) =
           insert (Sampler_light (ds ! p)) (fst ` set (connections s ch))"
    and "channel_mapping (connect_sampler ch ds p s) = channel_mapping s"
proof -
  let ?p = "connections_put ch (Sampler_light (ds ! p)) (next_id s)
          (makeConnection (Sampler (ds ! p)) ''track_loaded'' Update_sampler s)"
  let ?s' = "connect_sampler ch ds p s"
  have p: "conns_for C ?p"
    by (rule conns_for_make_put[OF assms(1,2,3)]) (use assms(4,5) in auto)
  have k: "conns_kept ?p ?s'"
    by (simp add: connect_sampler_step conns_kept_connections_trigger)
  show "conns_for C ?s'" using k p by (rule conns_for_kept)
  have "connections ?s' = connections ?p" "channel_mapping ?s' = channel_mapping ?p"
    using k by (simp_all add: conns_kept_def)
  then show "fst ` set (connections ?s' ch) =
      insert (Sampler_light (ds ! p)) (fst ` set (connections s ch))"
    and "channel_mapping ?s' = channel_mapping s"
    by (simp_all add: connections_put_def makeConnection_def set_update_fresh[OF assms(3)])
qed

lemma conns_for_connect_sampler_list:
  assumes "conns_for C s" and "ch \<in> C" and "distinct (map ((!) ds) ps)"
    and "\<forall>p\<in>set ps. p < length ds \<and> Sampler_light (ds ! p) \<notin> fst ` set (connections s ch)"
    and "ds = sampler_groups ! channel_to_deck s ch"
  shows "conns_for C (fold (connect_sampler ch ds) ps s) \<and>
         channel_mapping (fold (connect_sampler ch ds) ps s) = channel_mapping s"
  using assms
proof (induction ps arbitrary: s)
  case Nil
  then show ?case by simp
next
  case (Cons p ps)
  let ?s1 = "connect_sampler ch ds p s"
  have fresh: "Sampler_light (ds ! p) \<notin> fst ` set (connections s ch)" and len: "p < length ds"
    using Cons.prems(4) by simp_all
  note st = conns_for_connect_sampler[OF Cons.prems(1,2) fresh Cons.prems(5) len]
  have "channel_to_deck ?s1 ch = channel_to_deck s ch"
    by (simp only: channel_to_deck_def st(3))
  then have d1: "ds = sampler_groups ! channel_to_deck ?s1 ch"
    by (simp only: Cons.prems(5))
  have "ds ! q \<noteq> ds ! p" if "q \<in> set ps" for q
    using Cons.prems(3) that by (metis distinct.simps(2) image_eqI list.simps(9) set_map)
  then have "\<forall>q\<in>set ps. q < length ds \<and> Sampler_light (ds ! q) \<notin> fst ` set (connections ?s1 ch)"
    using Cons.prems(4) by (simp add: st(2))
  moreover have "distinct (map ((!) ds) ps)" using Cons.prems(3) by simp
  ultimately have "conns_for C (fold (connect_sampler ch ds) ps ?s1) \<and>
         channel_mapping (fold (connect_sampler ch ds) ps ?s1) = channel_mapping ?s1"
    using Cons.IH[OF st(1) Cons.prems(2) _ _ d1] by blast
  then show ?case
    by (simp add: st(3))
qed

lemma distinct_bank: "d < 4 \<Longrightarrow> distinct (sampler_groups ! d)"
proof -
  assume "d < 4"
  then have "d = 0 \<or> d = 1 \<or> d = 2 \<or> d = 3" by arith
  then show ?thesis by (auto simp: sampler_groups_def)
qed

lemma conns_ok_connect_channel:
  assumes "conns_ok s" and "connections s ch = []" and "ch < 2" and "channel_to_deck s ch < 4"
  shows "conns_ok (connect_channel ch s)"
proof -
  define g where "g = channel_to_group s ch"
  define ds where "ds = sampler_groups ! channel_to_deck s ch"
  define s0 where "s0 = print (Connecting ch (channel_to_deck s ch) g) s"
  define s1 where "s1 = fold (connect_control ch g) output_control_to_function s0"
  define s2 where "s2 = connect_samplers ch s1"
  have ch: "ch \<in> {0, 1}" using assms(3) by auto
  have k0: "conns_kept s s0" by (simp add: s0_def conns_kept_def print_def)
  have c0: "conns_for {0, 1} s0"
    using conns_for_kept[OF k0] assms(1) by (simp add: conns_ok_def)
  have t0: "connections s0 ch = []" and g0: "g = channel_to_group s0 ch"
    using k0 assms(2) by (simp_all add: conns_kept_def g_def channel_to_group_def channel_to_deck_def)
  have d: "distinct (map fst output_control_to_function)"
    by (simp add: output_control_to_function_def)
  have "\<forall>e\<in>set output_control_to_function. Control (fst e) \<notin> fst ` set (connections s0 ch)"
    by (simp add: t0)
  from conns_for_connect_controls[OF c0 ch d this g0]
  have c1: "conns_for {0, 1} s1"
    and k1: "fst ` set (connections s1 ch) = Control ` fst ` set output_control_to_function"
    and m1: "channel_mapping s1 = channel_mapping s"
    using k0 by (simp_all add: s1_def t0 conns_kept_def)
  have ds1: "ds = sampler_groups ! channel_to_deck s1 ch"
    by (simp add: ds_def channel_to_deck_def m1)
  have e2: "s2 = fold (connect_sampler ch ds) [0..<length ds] s1"
    unfolding s2_def connect_samplers_fold ds1[symmetric] ..
  have dd: "distinct (map ((!) ds) [0..<length ds])"
    using distinct_bank[OF assms(4)] by (simp add: map_nth ds_def)
  have "\<forall>p\<in>set [0..<length ds]. p < length ds \<and>
      Sampler_light (ds ! p) \<notin> fst ` set (connections s1 ch)"
    by (auto simp: k1)
  from conns_for_connect_sampler_list[OF c1 ch dd this ds1]
  have c2: "conns_for {0, 1} s2" by (simp add: e2)
  have "conns_kept s2 (update_deck_channel_indicator ch s2)"
    by (rule output_only_conns_kept[OF output_only_update_deck_channel_indicator])
  moreover have "conns_kept (update_deck_channel_indicator ch s2)
      (update_fx_light (update_deck_channel_indicator ch s2))"
    by (rule output_only_conns_kept[OF output_only_update_fx_light])
  ultimately have "conns_kept s2 (update_fx_light (update_deck_channel_indicator ch s2))"
    by (rule conns_kept_trans)
  then have "conns_for {0, 1} (update_fx_light (update_deck_channel_indicator ch s2))"
    using c2 by (rule conns_for_kept)
  then show ?thesis
    by (simp add: conns_ok_def connect_channel_steps s2_def s1_def s0_def g_def)
qed

lemma host_conns_fold_disconnect:
  "host_conns (fold (\<lambda>(k, c). conn_disconnect c) T s) =
     filter (\<lambda>x. cn_id x \<notin> snd ` set T) (host_conns s)"
proof (induction T arbitrary: s)
  case Nil
  then show ?case by simp
next
  case (Cons a T)
  have "filter (\<lambda>x. cn_id x \<notin> snd ` set T) (filter (\<lambda>x. cn_id x \<noteq> snd a) (host_conns s)) =
        filter (\<lambda>x. cn_id x \<notin> snd ` set (a # T)) (host_conns s)"
    by (auto intro: filter_cong)
  moreover have "fold (\<lambda>(k, c). conn_disconnect c) (a # T) s =
      fold (\<lambda>(k, c). conn_disconnect c) T (conn_disconnect (snd a) s)"
    by (simp add: split_def)
  moreover have "host_conns (conn_disconnect (snd a) s) =
      filter (\<lambda>x. cn_id x \<noteq> snd a) (host_conns s)"
    by (simp add: conn_disconnect_def)
  ultimately show ?case
    by (simp only: Cons.IH)
qed

lemma host_conns_disconnect_channel:
  "host_conns (disconnect_channel ch s) =
     filter (\<lambda>x. cn_id x \<notin> snd ` set (connections s ch)) (host_conns s)"
  by (simp add: disconnect_channel_def seq_simps Let_def fold_stopTimer fold_disconnect
      host_conns_fold_disconnect softTakeoverIgnoreNextValue_def)

lemma held_table: "held s c x \<Longrightarrow> cn_id x \<in> snd ` set (connections s c)"
  unfolding held_def by force

lemma conns_for_disconnect_channel:
  assumes "conns_for C s"
  shows "conns_for (C - {ch}) (disconnect_channel ch s)"
  unfolding conns_for_def
proof (intro ballI impI)
  let ?D = "disconnect_channel ch s"
  fix x assume x: "x \<in> set (host_conns ?D)" "deckish (cn_group x)"
  then have xs: "x \<in> set (host_conns s)" and nid: "cn_id x \<notin> snd ` set (connections s ch)"
    by (simp_all add: host_conns_disconnect_channel)
  obtain c where c: "c \<in> C" "held s c x"
    using assms xs x(2) unfolding conns_for_def by blast
  have ne: "c \<noteq> ch" using held_table[OF c(2)] nid by auto
  have "held ?D c x = held s c x"
    using ne
    by (intro held_cong) (simp_all add: disconnect_channel_fields channel_mapping_disconnect_channel)
  then have "held ?D c x" using c(2) by simp
  then show "\<exists>c\<in>C - {ch}. held ?D c x" using c(1) ne by blast
qed

lemma conns_for_set_channel_mapping:
  assumes "conns_for C s" and "ch \<notin> C"
  shows "conns_for C (set_channel_mapping ch n s)"
  unfolding conns_for_def
proof (intro ballI impI)
  let ?m = "set_channel_mapping ch n s"
  fix x assume x: "x \<in> set (host_conns ?m)" "deckish (cn_group x)"
  then obtain c where c: "c \<in> C" "held s c x"
    using assms(1) unfolding conns_for_def by (auto simp: set_channel_mapping_def)
  have "c \<noteq> ch" using c(1) assms(2) by auto
  then have "held ?m c x = held s c x"
    by (intro held_cong) (simp_all add: set_channel_mapping_def)
  then have "held ?m c x" using c(2) by simp
  then show "\<exists>c\<in>C. held ?m c x" using c(1) by blast
qed

lemma conns_ok_toggle_deck_channel:
  assumes "conns_ok s" and "mapping_ok s" and "num_decks s = 4" and "ch < 2"
  shows "conns_ok (toggle_deck_channel ch s)"
proof (cases "channel_to_deck s ch = next_deck s ch (channel_to_deck s ch)")
  case True
  then have "toggle_deck_channel ch s = print Would_toggle_identical s"
    by (simp add: toggle_deck_channel_def)
  moreover have "conns_kept s (print Would_toggle_identical s)"
    by (simp add: conns_kept_def print_def)
  ultimately show ?thesis using conns_ok_kept assms(1) by simp
next
  case False
  define nxt where "nxt = next_deck s ch (channel_to_deck s ch)"
  define p where "p = print (Toggling_deck (channel_to_deck s ch) nxt) s"
  define D where "D = disconnect_channel ch p"
  define m where "m = set_channel_mapping ch nxt D"
  have "conns_kept s p" by (simp add: p_def conns_kept_def print_def)
  then have "conns_for {0, 1} p"
    using assms(1) conns_for_kept by (simp add: conns_ok_def)
  then have "conns_for ({0, 1} - {ch}) D"
    unfolding D_def by (rule conns_for_disconnect_channel)
  then have "conns_for ({0, 1} - {ch}) m"
    unfolding m_def by (rule conns_for_set_channel_mapping) simp
  then have cm: "conns_ok m"
    unfolding conns_ok_def by (rule conns_for_mono) auto
  have tm: "connections m ch = []"
    by (simp add: m_def set_channel_mapping_def D_def disconnect_channel_fields)
  have "length (channel_mapping s) = 2" using assms(2) by (simp add: mapping_ok_def)
  then have "channel_to_deck m ch = nxt"
    using assms(4)
    by (simp add: channel_to_deck_def m_def set_channel_mapping_def D_def
        channel_mapping_disconnect_channel p_def print_def)
  moreover have "nxt < 4"
    by (simp add: nxt_def next_deck_def get_num_decks_def assms(3))
  ultimately have "conns_ok (connect_channel ch m)"
    using conns_ok_connect_channel[OF cm tm assms(4)] by simp
  then show ?thesis
    using toggle_deck_channel_steps[OF False]
    by (simp add: m_def D_def p_def nxt_def)
qed

lemma conns_ok_gateway:
  "conns_ok s \<Longrightarrow> mapping_ok s \<Longrightarrow> num_decks s = 4 \<Longrightarrow> ch < 2 \<Longrightarrow>
   conns_ok (toggle_deck_channel_gateway ch s)"
  by (simp add: toggle_deck_channel_gateway_def always_toggle_both_def
      conns_ok_toggle_deck_channel)

lemma num_decks_step: "num_decks (step e s) = num_decks s"
proof (cases e)
  case (ShiftPressed ch v now)
  obtain s1 where s1: "button_only s s1"
    "shiftPressed ch v now s = s1 \<or> shiftPressed ch v now s = toggle_deck_channel_gateway ch s1"
    using set_shift_button_pressed_cases[of s ch "v = 0x7F" now]
    unfolding shiftPressed_def by blast
  have "num_decks s1 = num_decks s" using s1(1) by (simp add: button_only_def)
  moreover have "num_decks (toggle_deck_channel_gateway ch s1) = num_decks s1"
    using rebind_only_toggle_deck_channel_gateway[of s1 ch] by (simp add: rebind_only_def)
  ultimately show ?thesis using s1(2) ShiftPressed by auto
next
  case (LoopIn ch v)
  have "rebind_only s (loop_in ch v s)"
    unfolding loop_in_def Let_def by (auto intro: rebind_only_refl ro)
  then show ?thesis using LoopIn by (simp add: rebind_only_def)
next
  case (LoopOut ch v)
  have "rebind_only s (loop_out ch v s)"
    unfolding loop_out_def Let_def by (auto intro: rebind_only_refl ro)
  then show ?thesis using LoopOut by (simp add: rebind_only_def)
next
  case (HandlePad pc ctrl v)
  have "num_decks (toggle_deck_channel_gateway (padchannel_to_channel pc) s) = num_decks s"
    using rebind_only_toggle_deck_channel_gateway[of s "padchannel_to_channel pc"]
    by (simp add: rebind_only_def)
  moreover have "num_decks (seq [beatjump_scalestep_add (padchannel_to_channel pc) k,
      update_beatjump_shift_lights (padchannel_to_channel pc)] s) = num_decks s" for k
    using button_only_scalestep[of s "padchannel_to_channel pc" k] by (simp add: button_only_def)
  ultimately show ?thesis
    using handle_pad_cases[of pc ctrl v s] HandlePad by auto
next
  case (HostSet g k v)
  show ?thesis
    using HostSet host_set_connect_only[of s g k v]
    by (simp add: connect_only_def rebind_only_def)
next
  case (TimerFired t)
  have "rebind_only s (timer_fired t s)"
    by (intro connect_only_rebind_only loop_only_connect_only blink_only_loop_only
        blink_only_timer_fired)
  then show ?thesis using TimerFired by (simp add: rebind_only_def)
qed

lemma conns_ok_step:
  assumes "conns_ok s" and "mapping_ok s" and "num_decks s = 4" and "event_ok e"
  shows "conns_ok (step e s)"
proof (cases e)
  case (ShiftPressed ch v now)
  obtain s1 where s1: "button_only s s1"
    "shiftPressed ch v now s = s1 \<or> shiftPressed ch v now s = toggle_deck_channel_gateway ch s1"
    using set_shift_button_pressed_cases[of s ch "v = 0x7F" now]
    unfolding shiftPressed_def by blast
  have a: "conns_ok s1"
    using button_only_conns_kept[OF s1(1)] assms(1) by (rule conns_ok_kept)
  have b: "mapping_ok s1" using s1(1) assms(2) by (rule mapping_ok_button_only)
  have c: "num_decks s1 = 4" using s1(1) assms(3) by (simp add: button_only_def)
  have "ch < 2" using assms(4) ShiftPressed by simp
  then show ?thesis
    using s1(2) ShiftPressed a conns_ok_gateway[OF a b c] by auto
next
  case (LoopIn ch v)
  have "loop_only s (loop_in ch v s)"
    unfolding loop_in_def Let_def by (auto intro: loop_only_refl lo)
  then show ?thesis
    using LoopIn conns_ok_kept[OF loop_only_conns_kept assms(1)] by simp
next
  case (LoopOut ch v)
  have "loop_only s (loop_out ch v s)"
    unfolding loop_out_def Let_def by (auto intro: loop_only_refl lo)
  then show ?thesis
    using LoopOut conns_ok_kept[OF loop_only_conns_kept assms(1)] by simp
next
  case (HandlePad pc ctrl v)
  show ?thesis
    using handle_pad_cases[of pc ctrl v s] assms(1) HandlePad
      conns_ok_gateway[OF assms(1,2,3) padchannel_to_channel_less]
      conns_ok_kept[OF button_only_conns_kept[OF button_only_scalestep] assms(1)]
    by auto
next
  case (HostSet g k v)
  then show ?thesis
    using conns_ok_kept[OF conns_kept_host_set assms(1)] by simp
next
  case (TimerFired t)
  have "loop_only s (timer_fired t s)"
    by (intro blink_only_loop_only blink_only_timer_fired)
  then show ?thesis
    using TimerFired conns_ok_kept[OF loop_only_conns_kept assms(1)] by simp
qed

subsection \<open>The connections after \<^verbatim>\<open>init\<close>\<close>

lemma table_kept_refl: "table_kept c s s"
  by (simp add: table_kept_def)

lemma table_kept_trans: "table_kept c s t \<Longrightarrow> table_kept c t u \<Longrightarrow> table_kept c s u"
  by (simp add: table_kept_def)

lemma conns_kept_table_kept: "conns_kept s s' \<Longrightarrow> table_kept c s s'"
  by (simp add: table_kept_def conns_kept_def)

lemma table_kept_fold:
  "(\<And>x s. x \<in> set xs \<Longrightarrow> table_kept c s (f x s)) \<Longrightarrow> table_kept c s (fold f xs s)"
  by (rule fold_rel[where R = "table_kept c"]) (auto intro: table_kept_refl table_kept_trans)

lemma table_kept_make_put:
  "c \<noteq> ch \<Longrightarrow> table_kept c s (connections_put ch k i (makeConnection g ctrl f s))"
  by (simp add: table_kept_def connections_put_def makeConnection_def)

lemma table_kept_connect_control:
  assumes "c \<noteq> ch"
  shows "table_kept c s (connect_control ch g e s)"
proof -
  obtain k f t where e: "e = (k, f, t)" by (cases e)
  have "table_kept c (connections_put ch (Control k) (next_id s) (makeConnection g k f s))
      (connect_control ch g (k, f, t) s)"
    by (simp add: connect_control_step table_kept_refl
        conns_kept_table_kept[OF conns_kept_connections_trigger])
  then show ?thesis
    unfolding e by (rule table_kept_trans[OF table_kept_make_put[OF assms]])
qed

lemma table_kept_connect_sampler:
  assumes "c \<noteq> ch"
  shows "table_kept c s (connect_sampler ch ds p s)"
  unfolding connect_sampler_step
  by (rule table_kept_trans[OF table_kept_make_put[OF assms]
        conns_kept_table_kept[OF conns_kept_connections_trigger]])

lemma table_kept_connect_channel:
  assumes "c \<noteq> ch"
  shows "table_kept c s (connect_channel ch s)"
proof -
  define g where "g = channel_to_group s ch"
  define s0 where "s0 = print (Connecting ch (channel_to_deck s ch) g) s"
  define s1 where "s1 = fold (connect_control ch g) output_control_to_function s0"
  define s2 where "s2 = connect_samplers ch s1"
  define s3 where "s3 = update_deck_channel_indicator ch s2"
  have "table_kept c s s0" by (simp add: s0_def table_kept_def print_def)
  moreover have "table_kept c s0 s1"
    unfolding s1_def by (rule table_kept_fold) (rule table_kept_connect_control[OF assms])
  moreover have "table_kept c s1 s2"
    unfolding s2_def connect_samplers_fold
    by (rule table_kept_fold) (rule table_kept_connect_sampler[OF assms])
  moreover have "table_kept c s2 s3"
    unfolding s3_def
    by (rule conns_kept_table_kept[OF output_only_conns_kept[OF output_only_update_deck_channel_indicator]])
  moreover have "table_kept c s3 (update_fx_light s3)"
    by (rule conns_kept_table_kept[OF output_only_conns_kept[OF output_only_update_fx_light]])
  ultimately have "table_kept c s (update_fx_light s3)"
    by (blast intro: table_kept_trans)
  then show ?thesis
    by (simp add: connect_channel_steps s3_def s2_def s1_def s0_def g_def)
qed

lemma unconnected_kept: "conns_kept s s' \<Longrightarrow> unconnected s \<Longrightarrow> unconnected s'"
  unfolding unconnected_def
  using conns_for_kept[of s s' "{}"] by (simp add: conns_kept_def)

lemmas unconnected_output_only = unconnected_kept[OF output_only_conns_kept]

lemmas unconnected_seq =
  seq_invI_Cons[where P = unconnected] seq_invI_Nil[where P = unconnected]

lemma unconnected_lights:
  assumes "unconnected s" and "\<And>f s. f \<in> set fs \<Longrightarrow> output_only s (f s)"
  shows "unconnected (seq fs s)"
  using assms(1) output_only_seq[of fs s] assms(2) unconnected_output_only by blast

lemma unconnected_make_persistent:
  assumes "unconnected s" and "\<not> deckish g"
  shows "unconnected (persistent_put k c (makeConnection g ctrl f s))"
  using assms
  unfolding unconnected_def conns_for_def
  by (auto simp: persistent_put_def makeConnection_def)

lemma unconnected_init_effect_unit:
  "unconnected s \<Longrightarrow>
   unconnected (fold (\<lambda>d s. s\<lparr>deck := (deck s)(d := (deck s d)
                   \<lparr>effect_unit := Some (default_effect_unit ! d)\<rparr>)\<rparr>) xs s)"
proof (rule fold_inv)
  fix x s' assume "unconnected s'"
  then show "unconnected (s'\<lparr>deck := (deck s')(x := (deck s' x)
                   \<lparr>effect_unit := Some (default_effect_unit ! x)\<rparr>)\<rparr>)"
    by (rule unconnected_kept[rotated]) (simp add: conns_kept_def)
qed

lemma unconnected_init_scalestep:
  "unconnected s \<Longrightarrow>
   unconnected (s\<lparr>channel := (channel s)(c := (channel s c)\<lparr>beatjump_scalestep := Some 0\<rparr>)\<rparr>)"
  by (erule unconnected_kept[rotated]) (simp add: conns_kept_def)

lemma unconnected_set_current_loop_modifier:
  "unconnected s \<Longrightarrow> unconnected (set_current_loop_modifier ch m s)"
  by (erule unconnected_kept[rotated]) (simp add: conns_kept_def set_current_loop_modifier_def)

lemma unconnected_init_slots:
  "unconnected s \<Longrightarrow>
   unconnected (fold (\<lambda>slot.
                 let effect_group = get_effect_group (Some unit) (real slot) in
                 seq [softTakeover effect_group ''meta'',
                      (\<lambda>s. persistent_put (Effect_unit_slot_enabled unit slot)
                              (next_id s)
                              (makeConnection effect_group ''enabled''
                                 Update_fx_light s))]) xs s)"
proof (rule fold_inv)
  fix x s' assume "unconnected s'"
  then show "unconnected ((let effect_group = get_effect_group (Some unit) (real x) in
                 seq [softTakeover effect_group ''meta'',
                      (\<lambda>s. persistent_put (Effect_unit_slot_enabled unit x)
                              (next_id s)
                              (makeConnection effect_group ''enabled''
                                 Update_fx_light s))]) s')"
    unfolding Let_def
    by (intro unconnected_seq unconnected_make_persistent
        unconnected_output_only[OF output_only_softTakeover])
      (simp_all add: get_effect_group_def deckish_def)
qed

lemma unconnected_init_units:
  "unconnected s \<Longrightarrow>
   unconnected (fold (\<lambda>unit.
                   let unit_group = get_effect_unit_group (Some unit) in
                   seq [softTakeover unit_group ''mix'',
                        (\<lambda>s. persistent_put (Effect_unit_focussed unit) (next_id s)
                                (makeConnection unit_group ''focused_effect'' Update_fx_light s)),
                        (\<lambda>s. fold (\<lambda>slot.
                                 let effect_group = get_effect_group (Some unit) (real slot) in
                                 seq [softTakeover effect_group ''meta'',
                                      (\<lambda>s. persistent_put (Effect_unit_slot_enabled unit slot)
                                              (next_id s)
                                              (makeConnection effect_group ''enabled''
                                                 Update_fx_light s))])
                               [1..<Suc (get_num_effect_slots s unit)] s)]) xs s)"
proof (rule fold_inv)
  fix x s' assume ok: "unconnected s'"
  show "unconnected ((let unit_group = get_effect_unit_group (Some x) in
                   seq [softTakeover unit_group ''mix'',
                        (\<lambda>s. persistent_put (Effect_unit_focussed x) (next_id s)
                                (makeConnection unit_group ''focused_effect'' Update_fx_light s)),
                        (\<lambda>s. fold (\<lambda>slot.
                                 let effect_group = get_effect_group (Some x) (real slot) in
                                 seq [softTakeover effect_group ''meta'',
                                      (\<lambda>s. persistent_put (Effect_unit_slot_enabled x slot)
                                              (next_id s)
                                              (makeConnection effect_group ''enabled''
                                                 Update_fx_light s))])
                               [1..<Suc (get_num_effect_slots s x)] s)]) s')"
    unfolding Let_def
    by (intro unconnected_seq unconnected_init_slots[unfolded Let_def] unconnected_make_persistent
        unconnected_output_only[OF output_only_softTakeover] ok)
      (simp_all add: get_effect_unit_group_def deckish_def)
qed

lemma unconnected_init_decks:
  "unconnected s \<Longrightarrow>
   unconnected (fold (\<lambda>d.
                  let g = deck_to_group d;
                      eq_group = EqualizerRack1 g
                  in seq [print (Setting_up_soft_takeover eq_group),
                          softTakeover eq_group ''parameter1'',
                          softTakeover eq_group ''parameter2'',
                          softTakeover eq_group ''parameter3'',
                          softTakeover (QuickEffectRack1 g) ''super1'',
                          softTakeover g ''pregain'',
                          softTakeover g ''volume'']) xs s)"
proof (rule fold_inv)
  fix x s' assume ok: "unconnected s'"
  show "unconnected ((let g = deck_to_group x;
                      eq_group = EqualizerRack1 g
                  in seq [print (Setting_up_soft_takeover eq_group),
                          softTakeover eq_group ''parameter1'',
                          softTakeover eq_group ''parameter2'',
                          softTakeover eq_group ''parameter3'',
                          softTakeover (QuickEffectRack1 g) ''super1'',
                          softTakeover g ''pregain'',
                          softTakeover g ''volume'']) s')"
    unfolding Let_def
    by (rule unconnected_lights[OF ok]) (auto intro: oo)
qed

lemma init_connects:
  "init s = connect_channel 1 (connect_channel 0 (seq 
       [track_loaded_animation 1 (Number 0),
          track_loaded_animation 1 (Number 1),
          (\<lambda>s. fold (\<lambda>d s. s\<lparr>deck := (deck s)(d := (deck s d)
                   \<lparr>effect_unit := Some (default_effect_unit ! d)\<rparr>)\<rparr>) [0..<get_num_decks s] s),
          (\<lambda>s. s\<lparr>channel := (channel s)(0 := (channel s 0)\<lparr>beatjump_scalestep := Some 0\<rparr>)\<rparr>),
          (\<lambda>s. s\<lparr>channel := (channel s)(1 := (channel s 1)\<lparr>beatjump_scalestep := Some 0\<rparr>)\<rparr>),
          update_beatjump_shift_lights 0,
          update_beatjump_shift_lights 1,
          set_backspin_length 0x20,
          update_brake_light,
          (\<lambda>s. update_head_split_light (getValue s Master ''headSplit'') s),
          (\<lambda>s. persistent_put Head_split (next_id s)
                  (makeConnection Master ''headSplit'' Update_head_split_light s)),
          set_current_loop_modifier 0 none,
          set_current_loop_modifier 1 none,
          (\<lambda>s. fold (\<lambda>unit.
                   let unit_group = get_effect_unit_group (Some unit) in
                   seq [softTakeover unit_group ''mix'',
                        (\<lambda>s. persistent_put (Effect_unit_focussed unit) (next_id s)
                                (makeConnection unit_group ''focused_effect'' Update_fx_light s)),
                        (\<lambda>s. fold (\<lambda>slot.
                                 let effect_group = get_effect_group (Some unit) (real slot) in
                                 seq [softTakeover effect_group ''meta'',
                                      (\<lambda>s. persistent_put (Effect_unit_slot_enabled unit slot)
                                              (next_id s)
                                              (makeConnection effect_group ''enabled''
                                                 Update_fx_light s))])
                               [1..<Suc (get_num_effect_slots s unit)] s)])
                 [1..<Suc (num_effectunits s)] s),
          fold (\<lambda>d.
                  let g = deck_to_group d;
                      eq_group = EqualizerRack1 g
                  in seq [print (Setting_up_soft_takeover eq_group),
                          softTakeover eq_group ''parameter1'',
                          softTakeover eq_group ''parameter2'',
                          softTakeover eq_group ''parameter3'',
                          softTakeover (QuickEffectRack1 g) ''super1'',
                          softTakeover g ''pregain'',
                          softTakeover g ''volume''])
               [0..<4]] s))"
  by (simp add: init_def seq_def)

lemma unconnected_init_prefix:
  "unconnected s \<Longrightarrow> unconnected (seq 
       [track_loaded_animation 1 (Number 0),
          track_loaded_animation 1 (Number 1),
          (\<lambda>s. fold (\<lambda>d s. s\<lparr>deck := (deck s)(d := (deck s d)
                   \<lparr>effect_unit := Some (default_effect_unit ! d)\<rparr>)\<rparr>) [0..<get_num_decks s] s),
          (\<lambda>s. s\<lparr>channel := (channel s)(0 := (channel s 0)\<lparr>beatjump_scalestep := Some 0\<rparr>)\<rparr>),
          (\<lambda>s. s\<lparr>channel := (channel s)(1 := (channel s 1)\<lparr>beatjump_scalestep := Some 0\<rparr>)\<rparr>),
          update_beatjump_shift_lights 0,
          update_beatjump_shift_lights 1,
          set_backspin_length 0x20,
          update_brake_light,
          (\<lambda>s. update_head_split_light (getValue s Master ''headSplit'') s),
          (\<lambda>s. persistent_put Head_split (next_id s)
                  (makeConnection Master ''headSplit'' Update_head_split_light s)),
          set_current_loop_modifier 0 none,
          set_current_loop_modifier 1 none,
          (\<lambda>s. fold (\<lambda>unit.
                   let unit_group = get_effect_unit_group (Some unit) in
                   seq [softTakeover unit_group ''mix'',
                        (\<lambda>s. persistent_put (Effect_unit_focussed unit) (next_id s)
                                (makeConnection unit_group ''focused_effect'' Update_fx_light s)),
                        (\<lambda>s. fold (\<lambda>slot.
                                 let effect_group = get_effect_group (Some unit) (real slot) in
                                 seq [softTakeover effect_group ''meta'',
                                      (\<lambda>s. persistent_put (Effect_unit_slot_enabled unit slot)
                                              (next_id s)
                                              (makeConnection effect_group ''enabled''
                                                 Update_fx_light s))])
                               [1..<Suc (get_num_effect_slots s unit)] s)])
                 [1..<Suc (num_effectunits s)] s),
          fold (\<lambda>d.
                  let g = deck_to_group d;
                      eq_group = EqualizerRack1 g
                  in seq [print (Setting_up_soft_takeover eq_group),
                          softTakeover eq_group ''parameter1'',
                          softTakeover eq_group ''parameter2'',
                          softTakeover eq_group ''parameter3'',
                          softTakeover (QuickEffectRack1 g) ''super1'',
                          softTakeover g ''pregain'',
                          softTakeover g ''volume''])
               [0..<4]] s)"
  unfolding Let_def
  by (intro unconnected_seq unconnected_init_decks[unfolded Let_def]
      unconnected_init_units[unfolded Let_def]
      unconnected_set_current_loop_modifier unconnected_make_persistent
      unconnected_output_only[OF output_only_update_head_split_light]
      unconnected_output_only[OF output_only_update_brake_light]
      unconnected_output_only[OF output_only_set_backspin_length]
      unconnected_output_only[OF output_only_update_beatjump_shift_lights]
      unconnected_init_scalestep unconnected_init_effect_unit
      unconnected_output_only[OF output_only_track_loaded_animation])
    (simp_all add: deckish_def)

lemma init_unconnected:
  "unconnected s \<Longrightarrow> \<exists>P. init s = connect_channel 1 (connect_channel 0 P) \<and> unconnected P"
  by (rule exI, rule conjI, rule init_connects, rule unconnected_init_prefix)

lemma conns_ok_start: "conns_ok (init (state0 c nd nu ns))"
proof -
  have "unconnected (state0 c nd nu ns)"
    by (simp add: unconnected_def conns_for_def state0_def)
  then obtain P where P: "init (state0 c nd nu ns) = connect_channel 1 (connect_channel 0 P)"
    "unconnected P"
    using init_unconnected by blast
  have okP: "conns_ok P"
    using P(2) unfolding unconnected_def conns_ok_def by (auto intro: conns_for_mono)
  have tP: "connections P c = []" for c
    using P(2) by (simp add: unconnected_def)
  have mP: "channel_mapping P = [0, 1]"
    using P(2) by (simp add: unconnected_def)
  define Q where "Q = connect_channel 0 P"
  have okQ: "conns_ok Q"
    unfolding Q_def
    by (rule conns_ok_connect_channel[OF okP tP]) (simp_all add: channel_to_deck_def mP)
  have "table_kept 1 P Q"
    unfolding Q_def by (rule table_kept_connect_channel) simp
  then have tQ: "connections Q 1 = []"
    by (simp add: table_kept_def tP)
  have mQ: "channel_mapping Q = [0, 1]"
    by (simp add: Q_def channel_mapping_connect_channel mP)
  have "conns_ok (connect_channel 1 Q)"
    by (rule conns_ok_connect_channel[OF okQ tQ]) (simp_all add: channel_to_deck_def mQ)
  then show ?thesis by (simp add: P(1) Q_def)
qed

lemma reachable_conns_ok_aux: "reachable s \<Longrightarrow> num_decks s = 4 \<longrightarrow> conns_ok s"
proof (induction rule: reachable.induct)
  case (start c nd nu ns)
  then show ?case by (simp add: conns_ok_start)
next
  case (event s e)
  then show ?case
    using conns_ok_step[OF _ reachable_mapping_ok[OF event.hyps(1)] _ event.hyps(2)]
    by (simp add: num_decks_step)
qed

lemma reachable_conns_ok: "reachable s \<Longrightarrow> num_decks s = 4 \<Longrightarrow> conns_ok s"
  using reachable_conns_ok_aux by blast

subsection \<open>New connections have new ids\<close>

lemma conns_grow_refl: "conns_grow s s"
  by (simp add: conns_grow_def)

lemma conns_grow_trans: "conns_grow a b \<Longrightarrow> conns_grow b c \<Longrightarrow> conns_grow a c"
  unfolding conns_grow_def by (meson le_trans)

lemma conns_grow_fold:
  "(\<And>x s. x \<in> set xs \<Longrightarrow> conns_grow s (f x s)) \<Longrightarrow> conns_grow s (fold f xs s)"
  by (rule fold_rel[where R = conns_grow]) (auto intro: conns_grow_refl conns_grow_trans)

lemma loop_only_conns_grow: "loop_only s s' \<Longrightarrow> conns_grow s s'"
  by (simp add: conns_grow_def loop_only_def connect_only_def rebind_only_def)

lemma output_only_conns_grow: "output_only s s' \<Longrightarrow> conns_grow s s'"
  by (simp add: conns_grow_def output_only_def)

lemma conns_grow_make_put:
  "conns_grow s (connections_put ch k i (makeConnection g ctrl f s))"
  by (auto simp: conns_grow_def connections_put_def makeConnection_def)

lemma conns_grow_connections_trigger: "conns_grow s (connections_trigger ch k s)"
proof -
  have a: "conns_grow s (s\<lparr>calls := calls s @ [Trigger c]\<rparr>)" for c
    by (simp add: conns_grow_def)
  have b: "conns_grow s (observe f v g s)" for f v g s
  proof -
    have "conns_grow s (s\<lparr>calls := calls s @ [Called f v g]\<rparr>)"
      by (simp add: conns_grow_def)
    then show ?thesis
      unfolding observe_def
      by (rule conns_grow_trans) (rule loop_only_conns_grow[OF loop_only_run_callback])
  qed
  have "conns_grow s (trigger c s)" for c
    unfolding trigger_def Let_def
    by (auto split: option.splits intro: a conns_grow_trans[OF a b])
  then show ?thesis
    by (simp add: connections_trigger_def conns_grow_refl split: option.splits)
qed

lemma conns_grow_connect_control: "conns_grow s (connect_control ch g e s)"
proof -
  obtain k f t where e: "e = (k, f, t)" by (cases e)
  have "conns_grow (connections_put ch (Control k) (next_id s) (makeConnection g k f s))
      (connect_control ch g (k, f, t) s)"
    by (simp add: connect_control_step conns_grow_refl conns_grow_connections_trigger)
  then show ?thesis
    unfolding e by (rule conns_grow_trans[OF conns_grow_make_put])
qed

lemma conns_grow_connect_sampler: "conns_grow s (connect_sampler ch ds p s)"
  unfolding connect_sampler_step
  by (rule conns_grow_trans[OF conns_grow_make_put conns_grow_connections_trigger])

lemma conns_grow_connect_channel: "conns_grow s (connect_channel ch s)"
proof -
  define g where "g = channel_to_group s ch"
  define s0 where "s0 = print (Connecting ch (channel_to_deck s ch) g) s"
  define s1 where "s1 = fold (connect_control ch g) output_control_to_function s0"
  define s2 where "s2 = connect_samplers ch s1"
  define s3 where "s3 = update_deck_channel_indicator ch s2"
  have "conns_grow s s0" by (simp add: s0_def conns_grow_def print_def)
  moreover have "conns_grow s0 s1"
    unfolding s1_def by (rule conns_grow_fold) (rule conns_grow_connect_control)
  moreover have "conns_grow s1 s2"
    unfolding s2_def connect_samplers_fold
    by (rule conns_grow_fold) (rule conns_grow_connect_sampler)
  moreover have "conns_grow s2 s3"
    unfolding s3_def
    by (rule output_only_conns_grow[OF output_only_update_deck_channel_indicator])
  moreover have "conns_grow s3 (update_fx_light s3)"
    by (rule output_only_conns_grow[OF output_only_update_fx_light])
  ultimately have "conns_grow s (update_fx_light s3)"
    by (blast intro: conns_grow_trans)
  then show ?thesis
    by (simp add: connect_channel_steps s3_def s2_def s1_def s0_def g_def)
qed

subsection \<open>The connections to a deck\<close>

lemma held_observes: "held s c x \<Longrightarrow> observes (channel_to_deck s c) x"
  unfolding held_def observes_def channel_to_group_def by blast

lemma observes_deckish: "observes d x \<Longrightarrow> deckish (cn_group x)"
  unfolding observes_def deckish_def deck_to_group_def by auto

lemma not_observes_other:
  assumes "d \<in> {0, 2} \<and> d' \<in> {1, 3} \<or> d \<in> {1, 3} \<and> d' \<in> {0, 2}" and "observes d' x"
  shows "\<not> observes d x"
  using assms
  by (auto simp: observes_def deck_to_group_def sampler_groups_def)

lemma four_deck_binding:
  assumes "mapping_ok s" and "num_decks s = 4" and "ch < 2"
  defines "d \<equiv> channel_to_deck s ch"
  defines "d' \<equiv> channel_to_deck s (1 - ch)"
  defines "n \<equiv> next_deck s ch (channel_to_deck s ch)"
  shows "d \<in> {0, 2} \<and> n \<in> {0, 2} \<and> d' \<in> {1, 3} \<or> d \<in> {1, 3} \<and> n \<in> {1, 3} \<and> d' \<in> {0, 2}"
    and "n \<noteq> d" and "n < 4" and "d < 4"
proof -
  have "ch = 0 \<or> ch = 1" using assms(3) by auto
  then show "d \<in> {0, 2} \<and> n \<in> {0, 2} \<and> d' \<in> {1, 3} \<or> d \<in> {1, 3} \<and> n \<in> {1, 3} \<and> d' \<in> {0, 2}"
    and "n \<noteq> d" and "n < 4" and "d < 4"
    using assms(1,2)
    by (auto simp: mapping_ok_def d_def d'_def n_def channel_to_deck_def next_deck_def
        get_num_decks_def)
qed

subsection \<open>Teardown before a rebind\<close>

text \<open>
  Claim C3: in a rebind of a channel (the next deck differs from the bound one), the log
  of the call is \<open>pre\<close>, then the write of the binding, then \<open>post\<close>, where \<open>pre\<close> creates
  no timer and no connection and stops every timer that blinks the channel and every timer
  and connection in the channel's tables, and \<open>post\<close> creates only new ids. At every point
  of the log, either none of the channel's old timers and connections is active or no new
  one is. With four decks, every live connection of the host to a deck or sampler is held in
  the table of a channel, before and after the rebind; so \<open>pre\<close> disconnects every live
  connection to the old deck and to the samplers of its bank, the host has no connection
  to the old or to the new deck or their samplers when the binding is written, and after
  the rebind every connection to them is new and none is to the old deck.
\<close>

theorem rebind_teardown_first:
  assumes "reachable s" and "ch < 2"
    and "channel_to_deck s ch \<noteq> next_deck s ch (channel_to_deck s ch)"
  shows "(\<exists>pre post.
     calls (toggle_deck_channel ch s) =
       calls s @ pre @ Bind ch (next_deck s ch (channel_to_deck s ch)) # post \<and>
     (\<forall>e\<in>set pre. creates e = None \<and> (\<forall>c d. e \<noteq> Bind c d)) \<and>
     (\<forall>x\<in>set (host_timers s). tm_channel x = ch \<longrightarrow> StopTimer (tm_id x) \<in> set pre) \<and>
     (\<forall>i\<in>snd ` set (timers s ch). StopTimer i \<in> set pre) \<and>
     (\<forall>i\<in>snd ` set (connections s ch). Disconnect i \<in> set pre) \<and>
     (num_decks s = 4 \<longrightarrow>
        (\<forall>x\<in>set (host_conns s). observes (channel_to_deck s ch) x \<longrightarrow>
           Disconnect (cn_id x) \<in> set pre)) \<and>
     (\<forall>e\<in>set post. (\<forall>i. creates e = Some i \<longrightarrow> next_id s \<le> i) \<and> (\<forall>c d. e \<noteq> Bind c d))) \<and>
   (\<forall>n. active_ids (take n (calls (toggle_deck_channel ch s))) \<inter>
          (snd ` set (timers s ch) \<union> snd ` set (connections s ch)) = {} \<or>
        active_ids (take n (calls (toggle_deck_channel ch s))) \<subseteq> {i. i < next_id s}) \<and>
   (num_decks s = 4 \<longrightarrow>
      conns_ok s \<and> conns_ok (toggle_deck_channel ch s) \<and>
      (\<forall>x\<in>set (host_conns s). observes (channel_to_deck s ch) x \<longrightarrow>
         cn_id x \<in> snd ` set (connections s ch)) \<and>
      (\<forall>x\<in>set (host_conns (disconnect_channel ch
           (print (Toggling_deck (channel_to_deck s ch)
              (next_deck s ch (channel_to_deck s ch))) s))).
         \<not> observes (channel_to_deck s ch) x \<and>
         \<not> observes (next_deck s ch (channel_to_deck s ch)) x) \<and>
      (\<forall>x\<in>set (host_conns (toggle_deck_channel ch s)).
         observes (channel_to_deck s ch) x \<or> observes (next_deck s ch (channel_to_deck s ch)) x \<longrightarrow>
         next_id s \<le> cn_id x) \<and>
      (\<forall>x\<in>set (host_conns (toggle_deck_channel ch s)).
         cn_group x \<noteq> deck_to_group (channel_to_deck s ch)))"
proof -
  define nxt where "nxt = next_deck s ch (channel_to_deck s ch)"
  define p where "p = print (Toggling_deck (channel_to_deck s ch) nxt) s"
  define d where "d = disconnect_channel ch p"
  define m where "m = set_channel_mapping ch nxt d"
  define t where "t = connect_channel ch m"
  define g where "g = channel_to_group s ch"
  define pre where "pre = Print (Toggling_deck (channel_to_deck s ch) nxt) #
     map StopTimer (map snd (timers s ch)) @ map Disconnect (map snd (connections s ch)) @
     [SoftTakeoverIgnoreNextValue (EqualizerRack1 g) ''parameter1'',
      SoftTakeoverIgnoreNextValue (EqualizerRack1 g) ''parameter2'',
      SoftTakeoverIgnoreNextValue (EqualizerRack1 g) ''parameter3'',
      SoftTakeoverIgnoreNextValue (QuickEffectRack1 g) ''super1'',
      SoftTakeoverIgnoreNextValue g ''pregain'',
      SoftTakeoverIgnoreNextValue g ''volume'']"
  define old where "old = snd ` set (timers s ch) \<union> snd ` set (connections s ch)"
  have ok: "state_ok s" using assms(1) by (rule reachable_state_ok)
  have tog: "toggle_deck_channel ch s = t"
    using toggle_deck_channel_steps[OF assms(3)] by (simp add: t_def m_def d_def p_def nxt_def)
  have pf: "timers p = timers s" "connections p = connections s" "calls p = calls s @ [Print (Toggling_deck (channel_to_deck s ch) nxt)]"
    "channel_to_group p ch = g" "next_id p = next_id s"
    by (simp_all add: p_def print_def channel_to_group_def channel_to_deck_def g_def)
  have cd: "calls d = calls s @ pre" and nd: "next_id d = next_id s"
    unfolding d_def disconnect_channel_log pf pre_def by simp_all
  have cm: "calls m = calls s @ pre @ [Bind ch nxt]" and nm: "next_id m = next_id s"
    by (simp_all add: m_def set_channel_mapping_def cd nd)
  have co: "connect_only m t" unfolding t_def by (rule connect_only_connect_channel)
  obtain post where post: "calls t = calls m @ post"
    "\<forall>e\<in>set post. \<forall>i. creates e = Some i \<longrightarrow> next_id m \<le> i \<and> i < next_id t"
    using co unfolding connect_only_def rebind_only_def by blast
  obtain post' where post': "calls t = calls m @ post'" "list_all (\<lambda>e. \<not> rebinds e) post'"
    using co unfolding connect_only_def logs_def by blast
  have "post' = post" using post(1) post'(1) by simp
  then have nb: "\<forall>e\<in>set post. \<forall>c d. e \<noteq> Bind c d"
    using post'(2) by (auto simp: list_all_iff)
  have ct: "calls t = calls s @ pre @ Bind ch nxt # post"
    by (simp add: post(1) cm)
  have pre_none: "\<forall>e\<in>set pre. creates e = None \<and> (\<forall>c d. e \<noteq> Bind c d)"
    by (auto simp: pre_def)
  have stop_tab: "\<forall>i\<in>snd ` set (timers s ch). StopTimer i \<in> set pre"
    by (auto simp: pre_def)
  have disc_tab: "\<forall>i\<in>snd ` set (connections s ch). Disconnect i \<in> set pre"
    by (auto simp: pre_def)
  have stop_own: "\<forall>x\<in>set (host_timers s). tm_channel x = ch \<longrightarrow> StopTimer (tm_id x) \<in> set pre"
  proof (intro ballI impI)
    fix x assume x: "x \<in> set (host_timers s)" "tm_channel x = ch"
    have "map_of (timers s ch) timer_id = Some (tm_id x)"
      using ok x unfolding state_ok_def timers_ok_def by auto
    then have "(timer_id, tm_id x) \<in> set (timers s ch)" by (rule map_of_SomeD)
    then have "tm_id x \<in> snd ` set (timers s ch)" by force
    then show "StopTimer (tm_id x) \<in> set pre" using stop_tab by blast
  qed
  have old_lt: "\<forall>i\<in>old. i < next_id s"
    using ok unfolding state_ok_def ids_ok_def old_def by blast
  have log_lt: "\<forall>e\<in>set (calls s). \<forall>i. creates e = Some i \<longrightarrow> i < next_id s"
    using ok unfolding state_ok_def ids_ok_def by blast
  have a0: "active_ids (calls s @ pre) \<inter> old = {}"
  proof -
    have "i \<notin> fold log_step pre (active_ids (calls s))" if "i \<in> old" for i
    proof (rule fold_log_step_removed)
      show "\<forall>e\<in>set pre. creates e = None" using pre_none by blast
      show "StopTimer i \<in> set pre \<or> Disconnect i \<in> set pre"
        using that stop_tab disc_tab unfolding old_def by blast
    qed
    then show ?thesis by (auto simp: active_ids_append)
  qed
  have pts: "active_ids (take n (calls t)) \<inter> old = {} \<or>
             active_ids (take n (calls t)) \<subseteq> {i. i < next_id s}" for n
  proof (cases "n \<le> length (calls s @ pre)")
    case True
    then have tk: "take n (calls t) = take n (calls s @ pre)"
      by (simp add: ct)
    have "active_ids (take n (calls s @ pre)) \<subseteq>
          {i. \<exists>e\<in>set (take n (calls s @ pre)). creates e = Some i}"
      unfolding active_ids_def using fold_log_step_created[of "take n (calls s @ pre)" "{}"] by simp
    also have "\<dots> \<subseteq> {i. \<exists>e\<in>set (calls s @ pre). creates e = Some i}"
      using set_take_subset[of n "calls s @ pre"] by blast
    also have "\<dots> \<subseteq> {i. i < next_id s}"
      using log_lt pre_none by auto
    finally show ?thesis by (simp add: tk)
  next
    case False
    then have tk: "take n (calls t) =
        (calls s @ pre) @ take (n - length (calls s @ pre)) (Bind ch nxt # post)"
      by (simp add: ct)
    have "\<forall>e\<in>set (Bind ch nxt # post). \<forall>i. creates e = Some i \<longrightarrow> i \<notin> old"
      using post(2) old_lt nm by fastforce
    then have "\<forall>e\<in>set (take (n - length (calls s @ pre)) (Bind ch nxt # post)).
        \<forall>i. creates e = Some i \<longrightarrow> i \<notin> old"
      using set_take_subset[of "n - length (calls s @ pre)" "Bind ch nxt # post"] by blast
    then have "fold log_step (take (n - length (calls s @ pre)) (Bind ch nxt # post))
        (active_ids (calls s @ pre)) \<inter> old = {}"
      using a0 by (rule fold_log_step_disjoint)
    then show ?thesis
      unfolding tk active_ids_append by simp
  qed
  have fresh: "\<forall>e\<in>set post. (\<forall>i. creates e = Some i \<longrightarrow> next_id s \<le> i) \<and> (\<forall>c d. e \<noteq> Bind c d)"
    using post(2) nb nm by auto
  have hp: "host_conns p = host_conns s"
    by (simp add: p_def print_def)
  have hd: "host_conns d = filter (\<lambda>x. cn_id x \<notin> snd ` set (connections s ch)) (host_conns s)"
    by (simp add: d_def host_conns_disconnect_channel pf hp)
  have hm: "host_conns m = host_conns d"
    by (simp add: m_def set_channel_mapping_def)
  have four: "conns_ok s \<and> conns_ok t \<and>
      (\<forall>x\<in>set (host_conns s). observes (channel_to_deck s ch) x \<longrightarrow>
         cn_id x \<in> snd ` set (connections s ch)) \<and>
      (\<forall>x\<in>set (host_conns d). \<not> observes (channel_to_deck s ch) x \<and> \<not> observes nxt x) \<and>
      (\<forall>x\<in>set (host_conns t).
         observes (channel_to_deck s ch) x \<or> observes nxt x \<longrightarrow> next_id s \<le> cn_id x) \<and>
      (\<forall>x\<in>set (host_conns t). cn_group x \<noteq> deck_to_group (channel_to_deck s ch))"
    if n4: "num_decks s = 4"
  proof -
    have mo: "mapping_ok s" using assms(1) by (rule reachable_mapping_ok)
    have cs: "conns_ok s" using assms(1) n4 by (rule reachable_conns_ok)
    have ct': "conns_ok t"
      unfolding tog[symmetric] by (rule conns_ok_toggle_deck_channel[OF cs mo n4 assms(2)])
    note b = four_deck_binding[OF mo n4 assms(2), folded nxt_def]
    have "ch = 0 \<or> ch = 1" using assms(2) by arith
    then have o2: "1 - ch < 2" "1 - ch \<noteq> ch" "c \<in> {0, 1} \<Longrightarrow> c = ch \<or> c = 1 - ch" for c
      by auto
    have cls: "channel_to_deck s ch \<in> {0, 2} \<and> channel_to_deck s (1 - ch) \<in> {1, 3} \<or>
        channel_to_deck s ch \<in> {1, 3} \<and> channel_to_deck s (1 - ch) \<in> {0, 2}"
      "nxt \<in> {0, 2} \<and> channel_to_deck s (1 - ch) \<in> {1, 3} \<or>
        nxt \<in> {1, 3} \<and> channel_to_deck s (1 - ch) \<in> {0, 2}"
      using b(1) by auto
    have own: "held s ch x"
      if x: "x \<in> set (host_conns s)" "observes (channel_to_deck s ch) x \<or> observes nxt x" for x
    proof -
      have "deckish (cn_group x)" using x(2) observes_deckish by blast
      then obtain c where c: "c \<in> {0, 1}" "held s c x"
        using cs x(1) unfolding conns_ok_def conns_for_def by blast
      have "c \<noteq> 1 - ch"
      proof
        assume "c = 1 - ch"
        then have "observes (channel_to_deck s (1 - ch)) x"
          using held_observes[OF c(2)] by simp
        then have "\<not> observes (channel_to_deck s ch) x" "\<not> observes nxt x"
          using not_observes_other[OF cls(1)] not_observes_other[OF cls(2)] by blast+
        then show False using x(2) by blast
      qed
      then show ?thesis using c o2(3) by blast
    qed
    have h1: "\<forall>x\<in>set (host_conns s). observes (channel_to_deck s ch) x \<longrightarrow>
         cn_id x \<in> snd ` set (connections s ch)"
      using own held_table by blast
    have h2: "\<forall>x\<in>set (host_conns d). \<not> observes (channel_to_deck s ch) x \<and> \<not> observes nxt x"
    proof
      fix x assume "x \<in> set (host_conns d)"
      then have x: "x \<in> set (host_conns s)" "cn_id x \<notin> snd ` set (connections s ch)"
        by (simp_all add: hd)
      show "\<not> observes (channel_to_deck s ch) x \<and> \<not> observes nxt x"
        using own[OF x(1)] held_table x(2) by blast
    qed
    have gr: "conns_grow m t" unfolding t_def by (rule conns_grow_connect_channel)
    have h3: "\<forall>x\<in>set (host_conns t).
         observes (channel_to_deck s ch) x \<or> observes nxt x \<longrightarrow> next_id s \<le> cn_id x"
    proof (intro ballI impI)
      fix x assume x: "x \<in> set (host_conns t)" "observes (channel_to_deck s ch) x \<or> observes nxt x"
      have "x \<in> set (host_conns d) \<or> next_id s \<le> cn_id x"
        using gr x(1) unfolding conns_grow_def hm nm by blast
      then show "next_id s \<le> cn_id x" using h2 x(2) by blast
    qed
    have mt: "channel_mapping t = (channel_mapping s)[ch := nxt]"
      unfolding tog[symmetric] channel_mapping_toggle_deck_channel nxt_def
      using assms(3) by simp
    have len: "length (channel_mapping s) = 2" using mo by (simp add: mapping_ok_def)
    have dt: "channel_to_deck t ch = nxt" "channel_to_deck t (1 - ch) = channel_to_deck s (1 - ch)"
      using assms(2) len o2(2) by (simp_all add: channel_to_deck_def mt nth_list_update)
    have h4: "\<forall>x\<in>set (host_conns t). cn_group x \<noteq> deck_to_group (channel_to_deck s ch)"
    proof
      fix x assume x: "x \<in> set (host_conns t)"
      show "cn_group x \<noteq> deck_to_group (channel_to_deck s ch)"
      proof
        assume g: "cn_group x = deck_to_group (channel_to_deck s ch)"
        then have "deckish (cn_group x)" by (simp add: deck_to_group_def deckish_def)
        then obtain c where c: "c \<in> {0, 1}" "held t c x"
          using ct' x unfolding conns_ok_def conns_for_def by blast
        have "observes (channel_to_deck t c) x" using held_observes[OF c(2)] .
        then have "channel_to_deck t c = channel_to_deck s ch"
          using g by (auto simp: observes_def deck_to_group_def)
        moreover have "channel_to_deck t c = nxt \<or> channel_to_deck t c = channel_to_deck s (1 - ch)"
          using o2(3)[OF c(1)] dt by auto
        ultimately show False using b(1,2) by auto
      qed
    qed
    show ?thesis using cs ct' h1 h2 h3 h4 by (intro conjI)
  qed
  have disc_own: "num_decks s = 4 \<longrightarrow>
        (\<forall>x\<in>set (host_conns s). observes (channel_to_deck s ch) x \<longrightarrow>
           Disconnect (cn_id x) \<in> set pre)"
    using four disc_tab by blast
  have ex: "\<exists>pre post.
     calls t = calls s @ pre @ Bind ch nxt # post \<and>
     (\<forall>e\<in>set pre. creates e = None \<and> (\<forall>c d. e \<noteq> Bind c d)) \<and>
     (\<forall>x\<in>set (host_timers s). tm_channel x = ch \<longrightarrow> StopTimer (tm_id x) \<in> set pre) \<and>
     (\<forall>i\<in>snd ` set (timers s ch). StopTimer i \<in> set pre) \<and>
     (\<forall>i\<in>snd ` set (connections s ch). Disconnect i \<in> set pre) \<and>
     (num_decks s = 4 \<longrightarrow>
        (\<forall>x\<in>set (host_conns s). observes (channel_to_deck s ch) x \<longrightarrow>
           Disconnect (cn_id x) \<in> set pre)) \<and>
     (\<forall>e\<in>set post. (\<forall>i. creates e = Some i \<longrightarrow> next_id s \<le> i) \<and> (\<forall>c d. e \<noteq> Bind c d))"
    apply (rule exI[of _ pre], rule exI[of _ post])
    using ct pre_none stop_own stop_tab disc_tab disc_own fresh
    apply (intro conjI)
          apply assumption+
    done
  have pts': "\<forall>n. active_ids (take n (calls t)) \<inter>
          (snd ` set (timers s ch) \<union> snd ` set (connections s ch)) = {} \<or>
        active_ids (take n (calls t)) \<subseteq> {i. i < next_id s}"
    using pts unfolding old_def by blast
  have four': "num_decks s = 4 \<longrightarrow>
      conns_ok s \<and> conns_ok t \<and>
      (\<forall>x\<in>set (host_conns s). observes (channel_to_deck s ch) x \<longrightarrow>
         cn_id x \<in> snd ` set (connections s ch)) \<and>
      (\<forall>x\<in>set (host_conns d). \<not> observes (channel_to_deck s ch) x \<and> \<not> observes nxt x) \<and>
      (\<forall>x\<in>set (host_conns t).
         observes (channel_to_deck s ch) x \<or> observes nxt x \<longrightarrow> next_id s \<le> cn_id x) \<and>
      (\<forall>x\<in>set (host_conns t). cn_group x \<noteq> deck_to_group (channel_to_deck s ch))"
    using four by blast
  show ?thesis
    using ex pts' four'
    unfolding tog d_def p_def nxt_def
    by (intro conjI)
qed

theorem rebind_teardown_first_witness:
  "reachable four_decks_looping \<and> (0::nat) < 2 \<and>
   channel_to_deck four_decks_looping 0 \<noteq>
     next_deck four_decks_looping 0 (channel_to_deck four_decks_looping 0) \<and>
   num_decks four_decks_looping = 4 \<and>
   (\<exists>pre post.
      calls (toggle_deck_channel 0 four_decks_looping) =
        calls four_decks_looping @ pre @ Bind 0 2 # post \<and>
      (\<forall>e\<in>set pre. creates e = None) \<and>
      (\<forall>x\<in>set (host_timers four_decks_looping).
         tm_channel x = 0 \<longrightarrow> StopTimer (tm_id x) \<in> set pre) \<and>
      (\<forall>x\<in>set (host_conns four_decks_looping).
         observes 0 x \<longrightarrow> Disconnect (cn_id x) \<in> set pre) \<and>
      (\<forall>e\<in>set post. \<forall>i. creates e = Some i \<longrightarrow> next_id four_decks_looping \<le> i) \<and>
      (\<forall>x\<in>set (host_conns (toggle_deck_channel 0 four_decks_looping)).
         observes 0 x \<or> observes 2 x \<longrightarrow> next_id four_decks_looping \<le> cn_id x) \<and>
      (\<forall>x\<in>set (host_conns (toggle_deck_channel 0 four_decks_looping)).
         cn_group x \<noteq> deck_to_group 0)) \<and>
   conns_ok (toggle_deck_channel 0 four_decks_looping)"
proof -
  have d: "channel_to_deck four_decks_looping 0 = 0"
    "next_deck four_decks_looping 0 0 = 2"
    by (simp_all add: channel_to_deck_def next_deck_def get_num_decks_def
        four_decks_looping_facts)
  have h: "channel_to_deck four_decks_looping 0 \<noteq>
     next_deck four_decks_looping 0 (channel_to_deck four_decks_looping 0)"
    by (simp add: d)
  have z: "(0::nat) < 2" by simp
  have n4: "num_decks four_decks_looping = 4" by (rule four_decks_looping_facts)
  note main = rebind_teardown_first[OF reachable_four_decks_looping z h, unfolded d]
  note four = main[THEN conjunct2, THEN conjunct2, THEN mp, OF n4]
  note rest = four[THEN conjunct2, THEN conjunct1]
    four[THEN conjunct2, THEN conjunct2, THEN conjunct2, THEN conjunct2, THEN conjunct1]
    four[THEN conjunct2, THEN conjunct2, THEN conjunct2, THEN conjunct2, THEN conjunct2]
  have ex: "\<exists>pre post.
      calls (toggle_deck_channel 0 four_decks_looping) =
        calls four_decks_looping @ pre @ Bind 0 2 # post \<and>
      (\<forall>e\<in>set pre. creates e = None) \<and>
      (\<forall>x\<in>set (host_timers four_decks_looping).
         tm_channel x = 0 \<longrightarrow> StopTimer (tm_id x) \<in> set pre) \<and>
      (\<forall>x\<in>set (host_conns four_decks_looping).
         observes 0 x \<longrightarrow> Disconnect (cn_id x) \<in> set pre) \<and>
      (\<forall>e\<in>set post. \<forall>i. creates e = Some i \<longrightarrow> next_id four_decks_looping \<le> i) \<and>
      (\<forall>x\<in>set (host_conns (toggle_deck_channel 0 four_decks_looping)).
         observes 0 x \<or> observes 2 x \<longrightarrow> next_id four_decks_looping \<le> cn_id x) \<and>
      (\<forall>x\<in>set (host_conns (toggle_deck_channel 0 four_decks_looping)).
         cn_group x \<noteq> deck_to_group 0)"
    using main[THEN conjunct1] n4 rest(2,3)
    apply (elim exE conjE)
    subgoal for pre post
      apply (rule exI[of _ pre], rule exI[of _ post])
      apply (intro conjI)
            apply assumption
           apply simp
          apply assumption
         apply simp
        apply simp
       apply assumption
      apply assumption
      done
    done
  show ?thesis
    using reachable_four_decks_looping h z n4 ex rest(1) by (intro conjI)
qed

subsection \<open>The lights of the beatjump scale pads\<close>

lemma pads_kept_refl: "pads_kept s s"
  by (simp add: pads_kept_def)

lemma pads_kept_trans: "pads_kept a b \<Longrightarrow> pads_kept b c \<Longrightarrow> pads_kept a c"
  unfolding pads_kept_def by auto

lemma pads_kept_seq: "(\<And>f s. f \<in> set fs \<Longrightarrow> pads_kept s (f s)) \<Longrightarrow> pads_kept s (seq fs s)"
  by (rule seq_rel[where R = pads_kept]) (auto intro: pads_kept_refl pads_kept_trans)

lemma pads_kept_fold:
  "(\<And>x s. x \<in> set xs \<Longrightarrow> pads_kept s (f x s)) \<Longrightarrow> pads_kept s (fold f xs s)"
  by (rule fold_rel[where R = pads_kept]) (auto intro: pads_kept_refl pads_kept_trans)

named_theorems pk

lemma pads_kept_sendShortMsg:
  "d \<noteq> 0x26 \<Longrightarrow> d \<noteq> 0x27 \<Longrightarrow> pads_kept s (sendShortMsg st d v s)"
  by (simp add: pads_kept_def sendShortMsg_def)

lemma pads_kept_host [pk]:
  "pads_kept s (print m s)"
  "pads_kept s (softTakeover g k s)"
  "pads_kept s (softTakeoverIgnoreNextValue g k s)"
  "pads_kept s (beginTimer period ch b s)"
  "pads_kept s (stopTimer t s)"
  "pads_kept s (conn_disconnect c s)"
  "pads_kept s (connections_put ch ck c s)"
  "pads_kept s (persistent_put pkey c s)"
  "pads_kept s (set_channel_mapping ch d s)"
  "pads_kept s (set_current_loop_modifier ch lm s)"
  "pads_kept s (beatjump_scalestep_add ch j s)"
  by (simp_all add: pads_kept_def print_def softTakeover_def softTakeoverIgnoreNextValue_def
      beginTimer_def stopTimer_def conn_disconnect_def connections_put_def persistent_put_def
      set_channel_mapping_def set_current_loop_modifier_def beatjump_scalestep_add_def)

lemma pads_kept_makeConnection: "pad_safe f \<Longrightarrow> pads_kept s (makeConnection g k f s)"
  by (auto simp: pads_kept_def makeConnection_def)

lemma pads_kept_update_light:
  "data1 m \<noteq> 0x26 \<Longrightarrow> data1 m \<noteq> 0x27 \<Longrightarrow> pads_kept s (update_light ch m a s)"
  unfolding update_light_def by (rule pads_kept_sendShortMsg)

lemma pads_kept_set_pad_light:
  "mode + padnum \<noteq> 0x26 \<Longrightarrow> mode + padnum \<noteq> 0x27 \<Longrightarrow>
   pads_kept s (set_pad_light mode ch padnum shift v s)"
  unfolding set_pad_light_def by (rule pads_kept_sendShortMsg)

lemma pads_kept_lights [pk]:
  "pads_kept s (update_light ch lights_vu_meter a s)"
  "pads_kept s (update_light ch lights_beat_fx a s)"
  "pads_kept s (update_light ch lights_play_pause a s)"
  "pads_kept s (update_light ch lights_shift_play_pause a s)"
  "pads_kept s (update_light ch lights_cue a s)"
  "pads_kept s (update_light ch lights_shift_cue a s)"
  "pads_kept s (update_light ch lights_reloop a s)"
  "pads_kept s (update_light ch lights_shift_reloop a s)"
  "pads_kept s (update_light ch lights_loop_in a s)"
  "pads_kept s (update_light ch lights_shift_loop_in a s)"
  "pads_kept s (update_light ch lights_loop_out a s)"
  "pads_kept s (update_light ch lights_shift_loop_out a s)"
  "pads_kept s (update_light ch lights_beatsync a s)"
  "pads_kept s (update_light ch lights_shift_beatsync a s)"
  "pads_kept s (update_light ch lights_headphone_cue a s)"
  "pads_kept s (update_light ch lights_shift_headphone_cue a s)"
  by (rule pads_kept_update_light; simp add: lights_defs)+

lemma pads_kept_set_backspin_length [pk]: "pads_kept s (set_backspin_length v s)"
  unfolding set_backspin_length_def by (rule pads_kept_sendShortMsg) simp_all

lemma pads_kept_deck_to_channel_warn [pk]: "pads_kept s (deck_to_channel_warn d s)"
  unfolding deck_to_channel_warn_def by (simp add: pads_kept_refl pk)

lemma pads_kept_update_indicator:
  assumes "data1 m \<noteq> 0x26" and "data1 m \<noteq> 0x27"
    and "\<And>x. sm = Some x \<Longrightarrow> data1 x \<noteq> 0x26 \<and> data1 x \<noteq> 0x27"
  shows "pads_kept s (update_indicator v g m sm s)"
  unfolding update_indicator_def Let_def
  using assms
  by (auto intro!: pads_kept_seq pads_kept_refl pads_kept_update_light split: option.splits)

lemma pads_kept_indicators [pk]:
  "pads_kept s (play_indicator v g s)"
  "pads_kept s (cue_indicator v g s)"
  "pads_kept s (beatsync_update v g s)"
  "pads_kept s (beatmaster_update v g s)"
  "pads_kept s (headphone_cue_update v g s)"
  "pads_kept s (quantize_update v g s)"
  unfolding play_indicator_def cue_indicator_def beatsync_update_def beatmaster_update_def
    headphone_cue_update_def quantize_update_def
  by (rule pads_kept_update_indicator; simp add: lights_defs)+

lemma pads_kept_vu_meter_update [pk]: "pads_kept s (vu_meter_update v g s)"
  unfolding vu_meter_update_def Let_def
  by (auto intro!: pads_kept_seq pads_kept_sendShortMsg pk simp: lights_defs)

lemma group_to_channel_le: "group_to_channel s g \<le> 1"
  by (simp add: group_to_channel_def deck_to_channel_def)

lemma pads_kept_track_loaded_animation [pk]: "pads_kept s (track_loaded_animation v g s)"
proof -
  have "group_to_channel s g \<noteq> 0x26" "group_to_channel s g \<noteq> 0x27"
    using group_to_channel_le[of s g] by auto
  then show ?thesis
    unfolding track_loaded_animation_def
    by (auto intro!: pads_kept_seq pads_kept_sendShortMsg pk)
qed

lemma pads_kept_keylock_update [pk]: "pads_kept s (keylock_update v g s)"
  unfolding keylock_update_def Let_def
  by (auto intro!: pads_kept_refl pads_kept_set_pad_light simp: lights_defs)

lemma pads_kept_set_reloop_light [pk]: "pads_kept s (set_reloop_light ch v s)"
  unfolding set_reloop_light_def
  by (auto intro!: pads_kept_seq pk)

lemma pads_kept_update_beatloop [pk]: "pads_kept s (update_beatloop v g padnum s)"
  unfolding update_beatloop_def Let_def
  by (auto intro!: pads_kept_refl pads_kept_set_pad_light simp: lights_defs)

lemma pads_kept_update_deck_channel_indicator [pk]:
  "pads_kept s (update_deck_channel_indicator ch s)"
  unfolding update_deck_channel_indicator_def Let_def
  by (auto intro!: pads_kept_set_pad_light simp: lights_defs)

lemma pads_kept_update_fx_light [pk]: "pads_kept s (update_fx_light s)"
  unfolding update_fx_light_def Let_def
  by (auto intro!: pk)

lemma pads_kept_update_hotcue:
  "padnum \<noteq> 0x26 \<Longrightarrow> padnum \<noteq> 0x27 \<Longrightarrow> pads_kept s (update_hotcue v g padnum s)"
  unfolding update_hotcue_def Let_def
  by (auto intro!: pads_kept_seq pads_kept_refl pads_kept_set_pad_light simp: lights_defs)

lemma pads_kept_update_sampler [pk]: "pads_kept s (update_sampler v g s)"
  unfolding update_sampler_def Let_def
  by (auto intro!: pads_kept_seq pads_kept_fold pads_kept_refl pads_kept_set_pad_light
      simp: lights_defs)

lemma pads_kept_update_brake_light [pk]: "pads_kept s (update_brake_light s)"
  unfolding update_brake_light_def
  by (auto intro!: pads_kept_seq pads_kept_set_pad_light simp: lights_defs)

lemma pads_kept_update_head_split_light [pk]: "pads_kept s (update_head_split_light v s)"
  unfolding update_head_split_light_def
  by (auto intro!: pads_kept_seq pads_kept_set_pad_light simp: lights_defs)

lemma pads_kept_stop_blink [pk]: "pads_kept s (stop_blink ch s)"
proof -
  have "pads_kept s (s\<lparr>timers := T\<rparr>)" for s T
    by (simp add: pads_kept_def)
  then show ?thesis
    unfolding stop_blink_def
    by (auto intro!: pads_kept_seq pads_kept_refl pk split: option.splits)
qed

lemma pads_kept_begin_blink [pk]: "pads_kept s (begin_blink ch period b s)"
  by (simp add: pads_kept_def begin_blink_def beginTimer_def Let_def)

lemma pads_kept_update_loop_inout_lights [pk]: "pads_kept s (update_loop_inout_lights ch s)"
  unfolding update_loop_inout_lights_def Let_def
  by (auto intro!: pads_kept_seq pads_kept_refl pk split: loop_modifier.splits)

lemma pads_kept_set_loop_adjust_state [pk]: "pads_kept s (set_loop_adjust_state d m s)"
proof -
  have a: "pads_kept s (s\<lparr>deck := D\<rparr>)" for D
    by (simp add: pads_kept_def)
  show ?thesis
    unfolding set_loop_adjust_state_def Let_def
    by (auto intro: a pads_kept_trans[OF a pads_kept_update_loop_inout_lights])
qed

lemma pads_kept_set_loop_enabled [pk]: "pads_kept s (set_loop_enabled v g s)"
  unfolding set_loop_enabled_def Let_def
  by (auto intro: pads_kept_trans pk)

lemma pads_kept_run_callback: "pad_safe f \<Longrightarrow> pads_kept s (run_callback f v g s)"
  unfolding run_callback_def
  by (cases f) (simp_all add: pk pads_kept_update_hotcue)

lemma pads_kept_timer_fired [pk]: "pads_kept s (timer_fired t s)"
proof (cases "find (\<lambda>x. tm_id x = t) (host_timers s)")
  case None
  then show ?thesis by (simp add: timer_fired_def pads_kept_refl)
next
  case (Some x)
  have a: "pads_kept s (s\<lparr>host_timers := T\<rparr>)" for T
    by (simp add: pads_kept_def)
  have b: "pads_kept s' (seq (map (\<lambda>m. update_light c m b) (blink_lights bl)) s')" for s' c b bl
    by (rule pads_kept_seq) (cases bl; auto simp: blink_lights_def intro: pk)
  show ?thesis
    using Some pads_kept_trans[OF a b] by (simp add: timer_fired_def Let_def)
qed

lemma spares_pads_refl: "spares_pads s s"
  by (simp add: spares_pads_def pads_kept_refl)

lemma pads_kept_safe: "pads_kept s s' \<Longrightarrow> conns_pad_safe s \<Longrightarrow> conns_pad_safe s'"
  unfolding pads_kept_def conns_pad_safe_def by blast

lemma spares_pads_trans: "spares_pads a b \<Longrightarrow> spares_pads b c \<Longrightarrow> spares_pads a c"
  unfolding spares_pads_def using pads_kept_safe pads_kept_trans by blast

lemma pads_kept_spares_pads: "pads_kept s s' \<Longrightarrow> spares_pads s s'"
  by (simp add: spares_pads_def)

lemma spares_pads_fold:
  "(\<And>x s. x \<in> set xs \<Longrightarrow> spares_pads s (f x s)) \<Longrightarrow> spares_pads s (fold f xs s)"
  by (rule fold_rel[where R = spares_pads]) (auto intro: spares_pads_refl spares_pads_trans)

lemma pads_kept_fields:
  "leds s' = leds s \<Longrightarrow> host_conns s' = host_conns s \<Longrightarrow> pads_kept s s'"
  by (simp add: pads_kept_def)

lemma pads_kept_observe: "pad_safe f \<Longrightarrow> pads_kept s (observe f v g s)"
proof -
  assume f: "pad_safe f"
  have "pads_kept s (s\<lparr>calls := calls s @ [Called f v g]\<rparr>)"
    by (simp add: pads_kept_def)
  then show ?thesis
    unfolding observe_def
    by (rule pads_kept_trans) (rule pads_kept_run_callback[OF f])
qed

lemma spares_pads_trigger: "spares_pads s (trigger c s)"
  unfolding spares_pads_def
proof
  assume safe: "conns_pad_safe s"
  have a: "pads_kept s (s\<lparr>calls := calls s @ [Trigger c]\<rparr>)"
    by (simp add: pads_kept_def)
  show "pads_kept s (trigger c s)"
  proof (cases "find (\<lambda>x. cn_id x = c) (host_conns s)")
    case None
    then show ?thesis using a by (simp add: trigger_def)
  next
    case (Some x)
    then have "x \<in> set (host_conns s)"
      by (auto simp: find_Some_iff)
    then have "pad_safe (cn_fun x)" using safe by (simp add: conns_pad_safe_def)
    then show ?thesis
      using Some pads_kept_trans[OF a pads_kept_observe]
      by (simp add: trigger_def Let_def)
  qed
qed

lemma spares_pads_connections_trigger: "spares_pads s (connections_trigger ch k s)"
  by (simp add: connections_trigger_def spares_pads_refl spares_pads_trigger split: option.splits)

lemma spares_pads_host_set: "spares_pads s (host_set g k v s)"
  unfolding spares_pads_def
proof
  assume safe: "conns_pad_safe s"
  let ?s' = "s\<lparr>ctl := (ctl s)(g := (ctl s g)(k := v))\<rparr>"
  have a: "pads_kept s ?s'" by (simp add: pads_kept_def)
  have "pads_kept ?s' (fold (\<lambda>c. observe (cn_fun c) v g)
           (filter (\<lambda>c. cn_group c = g \<and> cn_control c = k) (host_conns ?s')) ?s')"
  proof (rule pads_kept_fold)
    fix x t assume "x \<in> set (filter (\<lambda>c. cn_group c = g \<and> cn_control c = k) (host_conns ?s'))"
    then have "pad_safe (cn_fun x)" using safe by (simp add: conns_pad_safe_def)
    then show "pads_kept t (observe (cn_fun x) v g t)" by (rule pads_kept_observe)
  qed
  then show "pads_kept s (host_set g k v s)"
    unfolding host_set_def Let_def by (rule pads_kept_trans[OF a])
qed

lemma pads_kept_make_put:
  "pad_safe f \<Longrightarrow> pads_kept s (connections_put ch k i (makeConnection g ctrl f s))"
  by (rule pads_kept_trans[OF pads_kept_makeConnection pads_kept_host(7)])

lemma spares_pads_connect_control:
  assumes "pad_safe (fst (snd e))"
  shows "spares_pads s (connect_control ch g e s)"
proof -
  obtain k f t where e: "e = (k, f, t)" by (cases e)
  have f: "pad_safe f" using assms e by simp
  have "spares_pads (connections_put ch (Control k) (next_id s) (makeConnection g k f s))
      (connect_control ch g (k, f, t) s)"
    by (simp add: connect_control_step spares_pads_refl spares_pads_connections_trigger)
  then show ?thesis
    unfolding e
    by (rule spares_pads_trans[OF pads_kept_spares_pads[OF pads_kept_make_put[OF f]]])
qed

lemma spares_pads_connect_sampler: "spares_pads s (connect_sampler ch ds p s)"
  unfolding connect_sampler_step
  by (rule spares_pads_trans[OF pads_kept_spares_pads[OF pads_kept_make_put]
        spares_pads_connections_trigger]) simp

lemma pad_safe_table: "e \<in> set output_control_to_function \<Longrightarrow> pad_safe (fst (snd e))"
  by (auto simp: output_control_to_function_def)

lemma spares_pads_connect_channel: "spares_pads s (connect_channel ch s)"
proof -
  define g where "g = channel_to_group s ch"
  define s0 where "s0 = print (Connecting ch (channel_to_deck s ch) g) s"
  define s1 where "s1 = fold (connect_control ch g) output_control_to_function s0"
  define s2 where "s2 = connect_samplers ch s1"
  define s3 where "s3 = update_deck_channel_indicator ch s2"
  have "spares_pads s s0" by (simp add: s0_def pads_kept_spares_pads pk)
  moreover have "spares_pads s0 s1"
    unfolding s1_def
    by (rule spares_pads_fold) (rule spares_pads_connect_control[OF pad_safe_table])
  moreover have "spares_pads s1 s2"
    unfolding s2_def connect_samplers_fold
    by (rule spares_pads_fold) (rule spares_pads_connect_sampler)
  moreover have "spares_pads s2 s3"
    unfolding s3_def by (rule pads_kept_spares_pads[OF pads_kept_update_deck_channel_indicator])
  moreover have "spares_pads s3 (update_fx_light s3)"
    by (rule pads_kept_spares_pads[OF pads_kept_update_fx_light])
  ultimately have "spares_pads s (update_fx_light s3)"
    by (blast intro: spares_pads_trans)
  then show ?thesis
    by (simp add: connect_channel_steps s3_def s2_def s1_def s0_def g_def)
qed

lemma pads_kept_disconnect_channel: "pads_kept s (disconnect_channel ch s)"
proof -
  have "leds (disconnect_channel ch s) = leds s"
    by (rule disconnect_channel_fields)
  moreover have "set (host_conns (disconnect_channel ch s)) \<subseteq> set (host_conns s)"
    by (auto simp: host_conns_disconnect_channel)
  ultimately show ?thesis
    unfolding pads_kept_def by auto
qed

lemma spares_pads_toggle_deck_channel: "spares_pads s (toggle_deck_channel ch s)"
proof (cases "channel_to_deck s ch = next_deck s ch (channel_to_deck s ch)")
  case True
  then show ?thesis
    by (simp add: toggle_deck_channel_def pads_kept_spares_pads pk)
next
  case False
  define nxt where "nxt = next_deck s ch (channel_to_deck s ch)"
  define p where "p = print (Toggling_deck (channel_to_deck s ch) nxt) s"
  define D where "D = disconnect_channel ch p"
  define m where "m = set_channel_mapping ch nxt D"
  have "pads_kept s p" by (simp add: p_def pk)
  moreover have "pads_kept p D" unfolding D_def by (rule pads_kept_disconnect_channel)
  moreover have "pads_kept D m" by (simp add: m_def pk)
  ultimately have "pads_kept s m" by (blast intro: pads_kept_trans)
  then have "spares_pads s (connect_channel ch m)"
    by (rule spares_pads_trans[OF pads_kept_spares_pads spares_pads_connect_channel])
  then show ?thesis
    using toggle_deck_channel_steps[OF False]
    by (simp add: m_def D_def p_def nxt_def)
qed

lemma spares_pads_gateway: "spares_pads s (toggle_deck_channel_gateway ch s)"
  by (simp add: toggle_deck_channel_gateway_def always_toggle_both_def
      spares_pads_toggle_deck_channel)

lemma spares_pads_set_shift_button_pressed:
  "spares_pads s (set_shift_button_pressed ch p now s)"
proof -
  define s2 where "s2 = s\<lparr>channel := (channel s)(ch := (channel s ch)\<lparr>shift_button_pressed := Some p\<rparr>),
               last_shift_button_pressed := ch\<rparr>"
  define s3 where "s3 = (if last_shift_button_pressed s \<noteq> ch then update_fx_light s2 else s2)"
  define w where "w \<longleftrightarrow> now - get_last_shift_time s3 ch < times_double_press"
  define s4 where "s4 = seq [set_shift_double ch w,
                (\<lambda>s. if \<not> w
                      then s\<lparr>channel := (channel s)(ch := (channel s ch)\<lparr>shift_time := Some now\<rparr>)\<rparr>
                      else s)] s3"
  have "pads_kept s s2" by (simp add: s2_def pads_kept_def)
  moreover have "pads_kept s2 s3"
    by (simp add: s3_def pads_kept_refl pads_kept_update_fx_light)
  ultimately have k3: "pads_kept s s3" by (rule pads_kept_trans)
  have "pads_kept s3 s4"
    by (simp add: s4_def seq_simps pads_kept_def set_shift_double_def)
  then have k4: "pads_kept s s4" using k3 pads_kept_trans by blast
  have eq: "set_shift_button_pressed ch p now s =
      (if p then s4
       else if w \<and> get_shift_double s3 ch then toggle_deck_channel_gateway ch s3 else s3)"
    by (simp add: set_shift_button_pressed_def Let_def shift_double_press_def
        s2_def s3_def s4_def w_def)
  have "spares_pads s (toggle_deck_channel_gateway ch s3)"
    by (rule spares_pads_trans[OF pads_kept_spares_pads[OF k3] spares_pads_gateway])
  then show ?thesis
    unfolding eq using k3 k4 by (simp add: pads_kept_spares_pads)
qed

lemma pads_kept_loop_in: "pads_kept s (loop_in ch v s)"
  unfolding loop_in_def Let_def by (auto intro: pads_kept_refl pk)

lemma pads_kept_loop_out: "pads_kept s (loop_out ch v s)"
  unfolding loop_out_def Let_def by (auto intro: pads_kept_refl pk)

end
